theory Spec2Isabelle
  imports Main "HOL-Library.AList" "HOL-Library.Product_Lexorder"
begin

section \<open>Python strings and integers\<close>

text \<open>
  A Python \<open>str\<close> is modelled as a \<open>string\<close> (a list of 8-bit characters); slicing
  \<open>s[:n]\<close> is \<open>take n s\<close> and \<open>len\<close> is \<open>length\<close>. Python integers are unbounded and are
  modelled as \<open>int\<close>. The line break \<open>\n\<close> of the source is the character with code 10.
\<close>

definition newline :: string where
  "newline = [CHR 0x0A]"

definition is_digit :: "char \<Rightarrow> bool" where
  "is_digit c = (48 \<le> (of_char c :: nat) \<and> (of_char c :: nat) \<le> 57)"

definition digit_char :: "nat \<Rightarrow> char" where
  "digit_char d = char_of (48 + d)"

definition digit_val :: "char \<Rightarrow> nat" where
  "digit_val c = of_char c - 48"

text \<open>The decimal digits of a natural number, most significant first.\<close>

fun digits :: "nat \<Rightarrow> string" where
  "digits n = (if n < 10 then [digit_char n] else digits (n div 10) @ [digit_char (n mod 10)])"

declare digits.simps [simp del]

text \<open>\<open>str(i)\<close> for an integer \<open>i\<close>.\<close>

definition str_int :: "int \<Rightarrow> string" where
  "str_int i = (if i < 0 then CHR ''-'' # digits (nat (- i)) else digits (nat i))"

text \<open>\<open>s.zfill(w)\<close>: zeros are inserted after a leading sign, up to the width \<open>w\<close>.\<close>

definition zfill :: "nat \<Rightarrow> string \<Rightarrow> string" where
  "zfill w s =
     (case s of
        [] \<Rightarrow> replicate w CHR ''0''
      | c # cs \<Rightarrow>
          if c = CHR ''-'' \<or> c = CHR ''+''
          then c # replicate (w - length s) CHR ''0'' @ cs
          else replicate (w - length s) CHR ''0'' @ s)"

text \<open>The value of a string of decimal digits, as \<open>int(s)\<close> computes it.\<close>

definition nat_of_digits :: "string \<Rightarrow> nat" where
  "nat_of_digits s = foldl (\<lambda>a c. 10 * a + digit_val c) 0 s"

text \<open>
  \<open>int(s)\<close> for a string \<open>s\<close>, in base 10: blanks around the number are dropped (of the
  characters below 256 these are the codes 9 to 13, 32, 133 and 160), a sign may come first,
  and single underscores may stand between digits. Anything else, and a number of more than
  4300 digits (the default limit of the conversion), is the \<open>ValueError\<close> of the source, here
  \<open>None\<close>.
\<close>

definition is_space :: "char \<Rightarrow> bool" where
  "is_space c = ((of_char c :: nat) \<in> {9, 10, 11, 12, 13, 32, 133, 160})"

text \<open>
  The digits of a number written with underscores; \<open>prev\<close> tells whether the character before
  was a digit.
\<close>

fun int_digits :: "bool \<Rightarrow> string \<Rightarrow> string option" where
  "int_digits prev [] = (if prev then Some [] else None)"
| "int_digits prev (c # cs) =
     (if is_digit c then map_option ((#) c) (int_digits True cs)
      else if c = CHR ''_'' \<and> prev then int_digits False cs
      else None)"

definition py_int :: "string \<Rightarrow> int option" where
  "py_int s =
     (let t = rev (dropWhile is_space (rev (dropWhile is_space s)));
          sign = (case t of c # cs \<Rightarrow> if c = CHR ''-'' then - 1 else 1 | [] \<Rightarrow> 1);
          body = (case t of c # cs \<Rightarrow> if c = CHR ''-'' \<or> c = CHR ''+'' then cs else t | [] \<Rightarrow> t)
      in case int_digits False body of
           None \<Rightarrow> None
         | Some ds \<Rightarrow> if length ds > 4300 then None else Some (sign * int (nat_of_digits ds)))"

text \<open>A number printed with \<open>%0wd\<close>.\<close>

definition pad0 :: "nat \<Rightarrow> nat \<Rightarrow> string" where
  "pad0 w n = replicate (w - length (digits n)) CHR ''0'' @ digits n"


section \<open>Timestamps\<close>

text \<open>
  A \<open>datetime.datetime\<close> with the fields Python stores. All timestamps of one run carry the
  same offset (the forum reports UTC), so that Python's comparison is the lexicographic
  comparison of the fields.
\<close>

record datetime =
  year :: nat
  month :: nat
  day :: nat
  hour :: nat
  minute :: nat
  second :: nat
  microsecond :: nat

definition dt_key :: "datetime \<Rightarrow> nat \<times> nat \<times> nat \<times> nat \<times> nat \<times> nat \<times> nat" where
  "dt_key d = (year d, month d, day d, hour d, minute d, second d, microsecond d)"

definition dt_less :: "datetime \<Rightarrow> datetime \<Rightarrow> bool" where
  "dt_less a b = (dt_key a < dt_key b)"

definition dt_le :: "datetime \<Rightarrow> datetime \<Rightarrow> bool" where
  "dt_le a b = (dt_key a \<le> dt_key b)"

definition is_leap :: "nat \<Rightarrow> bool" where
  "is_leap y = (y mod 4 = 0 \<and> (y mod 100 \<noteq> 0 \<or> y mod 400 = 0))"

definition days_in_month :: "nat \<Rightarrow> nat \<Rightarrow> nat" where
  "days_in_month y m =
     (if m = 2 then (if is_leap y then 29 else 28)
      else if m = 4 \<or> m = 6 \<or> m = 9 \<or> m = 11 then 30 else 31)"

text \<open>The values Python's constructor accepts.\<close>

definition valid_datetime :: "datetime \<Rightarrow> bool" where
  "valid_datetime d =
     (1 \<le> year d \<and> year d \<le> 9999 \<and> 1 \<le> month d \<and> month d \<le> 12 \<and>
      1 \<le> day d \<and> day d \<le> days_in_month (year d) (month d) \<and>
      hour d < 24 \<and> minute d < 60 \<and> second d < 60 \<and> microsecond d < 1000000)"

text \<open>
  \<open>d - datetime.timedelta(days=1)\<close>; stepping below the first day of year 1 is Python's
  \<open>OverflowError\<close>, here \<open>None\<close>.
\<close>

definition minus_one_day :: "datetime \<Rightarrow> datetime option" where
  "minus_one_day d =
     (if 1 < day d then Some (d\<lparr>day := day d - 1\<rparr>)
      else if 1 < month d
        then Some (d\<lparr>month := month d - 1, day := days_in_month (year d) (month d - 1)\<rparr>)
      else if 1 < year d then Some (d\<lparr>year := year d - 1, month := 12, day := 31\<rparr>)
      else None)"

text \<open>\<open>str(d.date())\<close>, that is \<open>%04d-%02d-%02d\<close>.\<close>

definition date_str :: "datetime \<Rightarrow> string" where
  "date_str d = pad0 4 (year d) @ ''-'' @ pad0 2 (month d) @ ''-'' @ pad0 2 (day d)"

definition month_name :: "nat \<Rightarrow> string" where
  "month_name m =
     (if 1 \<le> m \<and> m \<le> 12
      then [''January'', ''February'', ''March'', ''April'', ''May'', ''June'', ''July'',
            ''August'', ''September'', ''October'', ''November'', ''December''] ! (m - 1)
      else [])"

text \<open>
  \<open>d.strftime('%Y-%m-%B')\<close> in the C locale, for the years from 1000 on (how an earlier year
  is padded depends on the C library of the platform).
\<close>

definition folder_name :: "datetime \<Rightarrow> string" where
  "folder_name d = pad0 4 (year d) @ ''-'' @ pad0 2 (month d) @ ''-'' @ month_name (month d)"


section \<open>Posts and topics\<close>

text \<open>
  The decoded JSON record of a post (\<open>raw\<close> in the source) with the keys the script reads:
  \<open>id\<close>, \<open>username\<close>, \<open>topic_slug\<close>, \<open>topic_id\<close>, \<open>topic_title\<close> and \<open>created_at\<close>, the last one
  already parsed by \<open>datetime.fromisoformat\<close>.
\<close>

record post_json =
  pj_id :: int
  pj_username :: string
  pj_topic_slug :: string
  pj_topic_id :: int
  pj_topic_title :: string
  pj_created_at :: datetime

text \<open>The decoded JSON record of a topic: keys \<open>id\<close>, \<open>slug\<close>, \<open>title\<close>, \<open>created_at\<close>.\<close>

record topic_json =
  tj_id :: int
  tj_slug :: string
  tj_title :: string
  tj_created_at :: datetime

record PostTopic =
  pt_id :: int
  pt_slug :: string
  pt_title :: string

record Post =
  post_id :: int
  post_slug :: string
  post_raw :: post_json

record Topic =
  topic_id :: int
  topic_slug :: string
  topic_raw :: topic_json
  markdown :: string

definition Post_from_json :: "post_json \<Rightarrow> Post" where
  "Post_from_json j = \<lparr>post_id = pj_id j, post_slug = pj_topic_slug j, post_raw = j\<rparr>"

definition Post_get_created_at :: "Post \<Rightarrow> datetime" where
  "Post_get_created_at p = pj_created_at (post_raw p)"

definition Post_get_topic :: "Post \<Rightarrow> PostTopic" where
  "Post_get_topic p =
     \<lparr>pt_id = pj_topic_id (post_raw p), pt_slug = pj_topic_slug (post_raw p),
      pt_title = pj_topic_title (post_raw p)\<rparr>"

definition Topic_from_json :: "topic_json \<Rightarrow> string \<Rightarrow> Topic" where
  "Topic_from_json t md = \<lparr>topic_id = tj_id t, topic_slug = tj_slug t, topic_raw = t, markdown = md\<rparr>"

definition Topic_get_created_at :: "Topic \<Rightarrow> datetime" where
  "Topic_get_created_at t = tj_created_at (topic_raw t)"


section \<open>File names\<close>

text \<open>The file name computed by \<open>Post.save\<close>.\<close>

definition Post_filename :: "Post \<Rightarrow> string" where
  "Post_filename p =
     (let idstr = zfill 10 (str_int (post_id p));
          username = take 10 (pj_username (post_raw p));
          topic_slug = take 50 (pj_topic_slug (post_raw p));
          filename = idstr @ ''-'' @ username @ ''-'' @ topic_slug @ ''.json'';
          max_filename_length = 100
      in if length filename > max_filename_length
         then take (max_filename_length - 5) filename @ ''.json''
         else filename)"

text \<open>
  A path below one of the two archive directories is the pair of the month folder and the
  file name (\<open>dir / folder_name / filename\<close>).
\<close>

type_synonym path = "string \<times> string"

definition Post_path :: "Post \<Rightarrow> path" where
  "Post_path p = (folder_name (Post_get_created_at p), Post_filename p)"

text \<open>The file name computed by \<open>Topic.save_rendered\<close>.\<close>

definition Topic_filename :: "Topic \<Rightarrow> string" where
  "Topic_filename t =
     (let date = date_str (Topic_get_created_at t);
          slug_truncated = take 50 (topic_slug t);
          idstr = zfill 10 (str_int (topic_id t));
          filename = date @ ''-'' @ slug_truncated @ ''-id'' @ idstr @ ''.md'';
          max_filename_length = 150
      in if length filename > max_filename_length
         then take (max_filename_length - 3) filename @ ''.md''
         else filename)"

definition Topic_path :: "Topic \<Rightarrow> path" where
  "Topic_path t = (folder_name (Topic_get_created_at t), Topic_filename t)"

definition base_url :: string where
  "base_url = ''https://discourse.slicer.org/''"

definition topic_url :: "Topic \<Rightarrow> string" where
  "topic_url t = base_url @ ''/t/'' @ topic_slug t @ ''/'' @ str_int (topic_id t)"

text \<open>The text \<open>Topic.save_rendered\<close> writes.\<close>

definition Topic_markdown :: "Topic \<Rightarrow> string" where
  "Topic_markdown t =
     ''# '' @ tj_title (topic_raw t) @ newline @ newline @ markdown t @ newline @ newline
       @ ''[Link to the original post]('' @ topic_url t @ '')''"


section \<open>The resilient fetcher\<close>

datatype error =
  SystemExit int
  | JSONDecodeError
  | KeyError
  | TypeError
  | ValueError
  | OverflowError

text \<open>
  A decoded JSON document, as far as the script looks into it: an object with the key
  \<open>latest_posts\<close> (a page of the listing), a topic object, or anything else.
\<close>

datatype json =
  JPosts "post_json list"
  | JTopic topic_json
  | JOther

text \<open>
  The configuration and the outside world. \<open>url\<close> is \<open>args().url\<close>. For a full URL \<open>u\<close>,
  \<open>urlopen e u n\<close> is the outcome of the \<open>n\<close>-th attempt (counted from 0) of one fetch of \<open>u\<close>:
  \<open>None\<close> when \<open>urllib.request.urlopen\<close>, \<open>read\<close> or \<open>decode\<close> raises, and the decoded body
  otherwise. \<open>json_loads\<close> is \<open>json.loads\<close>, with \<open>None\<close> for \<open>JSONDecodeError\<close>.
\<close>

record env =
  url :: string
  urlopen :: "string \<Rightarrow> nat \<Rightarrow> string option"
  json_loads :: "string \<Rightarrow> json option"

text \<open>
  The loop of \<open>http_get\<close>. The result is paired with the delays slept so far; \<open>None\<close> stands
  for a loop that never returns.
\<close>

partial_function (option) http_get_loop ::
  "(nat \<Rightarrow> string option) \<Rightarrow> nat \<Rightarrow> int \<Rightarrow> int list \<Rightarrow> ((error + string) \<times> int list) option"
where
  "http_get_loop attempt n backoff slept =
     (case attempt n of
        Some body \<Rightarrow> Some (Inr body, slept)
      | None \<Rightarrow>
          (let slept' = slept @ [backoff];
               backoff' = backoff * 2
           in if backoff' \<ge> 256 then Some (Inl (SystemExit 1), slept')
              else http_get_loop attempt (Suc n) backoff' slept'))"

definition http_get :: "env \<Rightarrow> string \<Rightarrow> ((error + string) \<times> int list) option" where
  "http_get e path = http_get_loop (urlopen e (url e @ path)) 0 3 []"

definition http_get_json :: "env \<Rightarrow> string \<Rightarrow> (error + json) option" where
  "http_get_json e path =
     (case http_get e path of
        None \<Rightarrow> None
      | Some (Inl err, _) \<Rightarrow> Some (Inl err)
      | Some (Inr body, _) \<Rightarrow>
          (case json_loads e body of
             None \<Rightarrow> Some (Inl JSONDecodeError)
           | Some j \<Rightarrow> Some (Inr j)))"

text \<open>\<open>http_get_json(path)['latest_posts']\<close>.\<close>

definition latest_posts :: "env \<Rightarrow> string \<Rightarrow> (error + post_json list) option" where
  "latest_posts e path =
     (case http_get_json e path of
        None \<Rightarrow> None
      | Some (Inl err) \<Rightarrow> Some (Inl err)
      | Some (Inr j) \<Rightarrow>
          (case j of JPosts ps \<Rightarrow> Some (Inr ps) | _ \<Rightarrow> Some (Inl KeyError)))"


section \<open>The archive on disk\<close>

datatype event =
  ReadMetadata
  | WroteMetadata datetime
  | SavedPost post_json
  | SavedTopic path
  | Warning string
  | LoggingError string

text \<open>
  The target directory: the files below \<open>posts\<close> and \<open>rendered-topics\<close> with their contents,
  the \<open>last_sync_date\<close> of \<open>.metadata.json\<close> (\<open>None\<close> when the file does not exist), and the
  reads, writes and warnings of the run in the order they happened. \<open>LoggingError\<close> is the
  report the logging module prints in place of a message it could not format.
\<close>

record archive =
  posts_dir :: "(path \<times> post_json) list"
  topics_dir :: "(path \<times> string) list"
  metadata_file :: "datetime option"
  events :: "event list"

definition Post_save :: "Post \<Rightarrow> archive \<Rightarrow> archive" where
  "Post_save p a =
     a\<lparr>posts_dir := AList.update (Post_path p) (post_raw p) (posts_dir a),
       events := events a @ [SavedPost (post_raw p)]\<rparr>"

definition Topic_save_rendered :: "Topic \<Rightarrow> archive \<Rightarrow> archive" where
  "Topic_save_rendered t a =
     a\<lparr>topics_dir := AList.update (Topic_path t) (Topic_markdown t) (topics_dir a),
       events := events a @ [SavedTopic (Topic_path t)]\<rparr>"

definition write_metadata :: "datetime \<Rightarrow> archive \<Rightarrow> archive" where
  "write_metadata d a = a\<lparr>metadata_file := Some d, events := events a @ [WroteMetadata d]\<rparr>"


section \<open>The post archiver\<close>

text \<open>The local variables of \<open>main\<close> that its loops update.\<close>

record vars =
  topics_to_get :: "(int \<times> PostTopic) list"
  max_created_at :: "datetime option"
  last_created_at :: "datetime option"
  last_id :: "int option"
  no_new_posts :: bool

definition init_vars :: vars where
  "init_vars = \<lparr>topics_to_get = [], max_created_at = None, last_created_at = None,
     last_id = None, no_new_posts = False\<rparr>"

text \<open>
  The \<open>for json_post in posts\<close> loop; \<open>last_sync_date\<close> is the variable of that name after
  the day has been subtracted. The first equation of the \<open>if\<close> is the \<open>break\<close>.
\<close>

fun process_posts :: "datetime option \<Rightarrow> post_json list \<Rightarrow> vars \<times> archive \<Rightarrow> vars \<times> archive" where
  "process_posts last_sync_date [] (v, a) = (v, a)"
| "process_posts last_sync_date (json_post # rest) (v, a) =
     (let post = Post_from_json json_post;
          v1 = v\<lparr>last_created_at := Some (Post_get_created_at post)\<rparr>;
          v2 = (case last_sync_date of
                  None \<Rightarrow> v1
                | Some d \<Rightarrow> v1\<lparr>no_new_posts := dt_less (Post_get_created_at post) d\<rparr>)
      in if last_sync_date \<noteq> None \<and> no_new_posts v2 then (v2, a)
         else
           (let a1 = Post_save post a;
                v3 = (if max_created_at v2 = None
                      then v2\<lparr>max_created_at := Some (Post_get_created_at post)\<rparr> else v2);
                v4 = v3\<lparr>last_id := Some (post_id post)\<rparr>;
                topic = Post_get_topic post;
                v5 = v4\<lparr>topics_to_get := AList.update (pt_id topic) topic (topics_to_get v4)\<rparr>
            in process_posts last_sync_date rest (v5, a1)))"

definition before_path :: "int \<Rightarrow> string" where
  "before_path k = ''/posts.json?before='' @ str_int k"

text \<open>The loop \<open>while not posts and last_id >= 0\<close>.\<close>

function scan_window :: "env \<Rightarrow> int \<Rightarrow> post_json list \<Rightarrow> (error + int \<times> post_json list) option" where
  "scan_window e lid posts =
     (if posts = [] \<and> lid \<ge> 0
      then (let lid' = lid - 49
            in case latest_posts e (before_path lid') of
                 None \<Rightarrow> None
               | Some (Inl err) \<Rightarrow> Some (Inl err)
               | Some (Inr posts') \<Rightarrow> scan_window e lid' posts')
      else Some (Inr (lid, posts)))"
  by pat_completeness auto
termination
  by (relation "measure (\<lambda>(e, lid, posts). nat (lid + 1))") auto

declare scan_window.simps [simp del]

text \<open>The loop \<open>while posts\<close>; \<open>None\<close> stands for a loop that never returns.\<close>

partial_function (option) archive_loop ::
  "env \<Rightarrow> datetime option \<Rightarrow> post_json list \<Rightarrow> vars \<times> archive \<Rightarrow> (error + vars \<times> archive) option"
where
  "archive_loop e last_sync_date posts va =
     (if posts = [] then Some (Inr va)
      else
        (case process_posts last_sync_date posts va of
           (v, a) \<Rightarrow>
             if no_new_posts v \<or> (case last_id v of None \<Rightarrow> False | Some lid \<Rightarrow> lid \<le> 1)
             then Some (Inr (v, a))
             else
               (case last_id v of
                  None \<Rightarrow> Some (Inl TypeError)
                | Some lid \<Rightarrow>
                    (case latest_posts e (before_path (lid - 1)) of
                       None \<Rightarrow> None
                     | Some (Inl err) \<Rightarrow> Some (Inl err)
                     | Some (Inr posts1) \<Rightarrow>
                         (case scan_window e lid posts1 of
                            None \<Rightarrow> None
                          | Some (Inl err) \<Rightarrow> Some (Inl err)
                          | Some (Inr (lid', posts2)) \<Rightarrow>
                              archive_loop e last_sync_date posts2 (v\<lparr>last_id := Some lid'\<rparr>, a))))))"


section \<open>The topic renderer\<close>

text \<open>
  The loop \<open>while (more_body := http_get(f"/raw/{id}?page={page_num}"))\<close>. The source never
  assigns \<open>page_num\<close> inside the loop, so the same value is passed on.
\<close>

definition raw_page_path :: "string \<Rightarrow> int \<Rightarrow> string" where
  "raw_page_path ident page_num = ''/raw/'' @ ident @ ''?page='' @ str_int page_num"

partial_function (option) more_pages :: "env \<Rightarrow> string \<Rightarrow> int \<Rightarrow> string \<Rightarrow> (error + string) option" where
  "more_pages e ident page_num body =
     (case http_get e (raw_page_path ident page_num) of
        None \<Rightarrow> None
      | Some (Inl err, _) \<Rightarrow> Some (Inl err)
      | Some (Inr more_body, _) \<Rightarrow>
          if more_body \<noteq> [] then more_pages e ident page_num (body @ newline @ more_body)
          else Some (Inr body))"

text \<open>
  The body of the loop \<open>for topic in topics_to_get.values()\<close> of \<open>main\<close>. \<open>ident\<close> is the topic
  identifier, an integer, as it is printed into the paths and into the warning.
\<close>

definition render_one :: "env \<Rightarrow> string \<Rightarrow> string \<Rightarrow> archive \<Rightarrow> (error + archive) option" where
  "render_one e json_path ident a =
     (case http_get_json e json_path of
        None \<Rightarrow> None
      | Some (Inl err) \<Rightarrow> Some (Inl err)
      | Some (Inr data) \<Rightarrow>
          (case http_get e (''/raw/'' @ ident) of
             None \<Rightarrow> None
           | Some (Inl err, _) \<Rightarrow> Some (Inl err)
           | Some (Inr body, _) \<Rightarrow>
               (let page_num = 2
                in if body = [] then Some (Inr (a\<lparr>events := events a @ [Warning ident]\<rparr>))
                   else
                     (case more_pages e ident page_num body of
                        None \<Rightarrow> None
                      | Some (Inl err) \<Rightarrow> Some (Inl err)
                      | Some (Inr body') \<Rightarrow>
                          (case data of
                             JTopic t \<Rightarrow> Some (Inr (Topic_save_rendered (Topic_from_json t body') a))
                           | _ \<Rightarrow> Some (Inl KeyError))))))"

fun render_all :: "env \<Rightarrow> (string \<times> string) list \<Rightarrow> archive \<Rightarrow> (error + archive) option" where
  "render_all e [] a = Some (Inr a)"
| "render_all e ((json_path, ident) # rest) a =
     (case render_one e json_path ident a of
        None \<Rightarrow> None
      | Some (Inl err) \<Rightarrow> Some (Inl err)
      | Some (Inr a') \<Rightarrow> render_all e rest a')"

definition main_topic_request :: "PostTopic \<Rightarrow> string \<times> string" where
  "main_topic_request topic = (''/t/'' @ str_int (pt_id topic) @ ''.json'', str_int (pt_id topic))"


section \<open>The main run\<close>

definition main :: "env \<Rightarrow> archive \<Rightarrow> (error + archive) option" where
  "main e a0 =
     (let a1 = (if metadata_file a0 \<noteq> None then a0\<lparr>events := events a0 @ [ReadMetadata]\<rparr> else a0)
      in case (case metadata_file a0 of
                 None \<Rightarrow> Inr None
               | Some d \<Rightarrow>
                   (case minus_one_day d of None \<Rightarrow> Inl OverflowError | Some c \<Rightarrow> Inr (Some c))) of
           Inl err \<Rightarrow> Some (Inl err)
         | Inr last_sync_date \<Rightarrow>
             (case latest_posts e ''/posts.json'' of
                None \<Rightarrow> None
              | Some (Inl err) \<Rightarrow> Some (Inl err)
              | Some (Inr posts) \<Rightarrow>
                  (case archive_loop e last_sync_date posts (init_vars, a1) of
                     None \<Rightarrow> None
                   | Some (Inl err) \<Rightarrow> Some (Inl err)
                   | Some (Inr (v, a2)) \<Rightarrow>
                       (let a3 = (case max_created_at v of
                                    None \<Rightarrow> a2
                                  | Some m \<Rightarrow> write_metadata m a2)
                        in render_all e (map (main_topic_request \<circ> snd) (topics_to_get v)) a3))))"


section \<open>The backfill reconciler\<close>

definition endswith :: "string \<Rightarrow> string \<Rightarrow> bool" where
  "endswith s suffix = (length suffix \<le> length s \<and> drop (length s - length suffix) s = suffix)"

text \<open>
  \<open>re.search(r'-id(\d+)\.md', file)\<close>: \<open>match_here\<close> tries the pattern at the start of the
  string, \<open>re_search_id\<close> returns group 1 of the leftmost match. Since \<open>.\<close> is no digit, the
  greedy \<open>\d+\<close> matches iff the whole run of digits is followed by \<open>.md\<close>.
\<close>

definition match_here :: "string \<Rightarrow> string option" where
  "match_here s =
     (if take 3 s = ''-id''
      then (let ds = takeWhile is_digit (drop 3 s);
                rest = dropWhile is_digit (drop 3 s)
            in if ds \<noteq> [] \<and> take 3 rest = ''.md'' then Some ds else None)
      else None)"

fun re_search_id :: "string \<Rightarrow> string option" where
  "re_search_id [] = None"
| "re_search_id (c # cs) =
     (case match_here (c # cs) of Some ds \<Rightarrow> Some ds | None \<Rightarrow> re_search_id cs)"

text \<open>The identifiers found in the names of the rendered files (\<open>id_list\<close>).\<close>

definition file_id :: "string \<Rightarrow> int list" where
  "file_id file =
     (if endswith file ''.md''
      then (case re_search_id file of Some ds \<Rightarrow> [int (nat_of_digits ds)] | None \<Rightarrow> [])
      else [])"

definition rendered_ids :: "archive \<Rightarrow> int list" where
  "rendered_ids a = concat (map (\<lambda>(p, content). file_id (snd p)) (topics_dir a))"

text \<open>
  \<open>collect_ids\<close>: one row per post file; \<open>np.array\<close> turns the identifier of each row into
  its decimal string.
\<close>

definition collect_ids :: "archive \<Rightarrow> (string \<times> string) list" where
  "collect_ids a =
     map (\<lambda>(p, raw). (str_int (pj_topic_id raw), pj_topic_slug raw))
       (filter (\<lambda>(p, raw). endswith (snd p) ''.json'') (posts_dir a))"

text \<open>
  What a run of \<open>renderFromJSONs\<close> takes from the Python installation. \<open>rich\<close> tells whether
  \<open>rich.logging\<close> can be imported, so that the handler of the log is a \<open>RichHandler\<close>.
  Python leaves open the order in which a \<open>set\<close> is iterated (it changes with the hash seed);
  every order of a finite set is the order of some ranking of its elements, and \<open>set_rank\<close>
  is that ranking. \<open>np_wide ids i\<close> is the value of \<open>i in np.array(ids)\<close> when one of the
  numbers involved does not fit a signed 64-bit integer: numpy then compares floating-point
  numbers or objects, depending on its version.
\<close>

record runtime =
  rich :: bool
  set_rank :: "string \<times> string \<Rightarrow> nat"
  np_wide :: "int list \<Rightarrow> int \<Rightarrow> bool"

definition int64 :: "int \<Rightarrow> bool" where
  "int64 i = (- (2 ^ 63) \<le> i \<and> i < 2 ^ 63)"

text \<open>\<open>i in id_array\<close>, exact as long as every number fits 64 bits.\<close>

definition np_contains :: "runtime \<Rightarrow> int list \<Rightarrow> int \<Rightarrow> bool" where
  "np_contains rt id_array i =
     (if list_all int64 (i # id_array) then i \<in> set id_array else np_wide rt id_array i)"

text \<open>\<open>[list(item) for item in set(data_tuples)]\<close>.\<close>

definition unique_data :: "runtime \<Rightarrow> (string \<times> string) list \<Rightarrow> (string \<times> string) list" where
  "unique_data rt data = sort_key (set_rank rt) (remdups data)"

text \<open>The rows that remain after the comparison with the rendered identifiers.\<close>

definition filtered_tuples ::
  "runtime \<Rightarrow> (string \<times> string) list \<Rightarrow> int list \<Rightarrow> (string \<times> string) list" where
  "filtered_tuples rt rows id_array =
     filter (\<lambda>t. case py_int (fst t) of None \<Rightarrow> False | Some i \<Rightarrow> \<not> np_contains rt id_array i) rows"

text \<open>
  \<open>log.warning("could not retrieve topic %d markdown", id)\<close> in \<open>renderFromJSONs\<close>, where \<open>id\<close>
  is a string of the array: formatting the message with \<open>%d\<close> raises \<open>TypeError\<close>. A
  \<open>RichHandler\<close> formats the record outside any exception handler, so the error reaches the
  caller; the standard handler catches it and prints a logging error in place of the warning.
\<close>

definition log_warning_str :: "runtime \<Rightarrow> string \<Rightarrow> archive \<Rightarrow> error + archive" where
  "log_warning_str rt ident a =
     (if rich rt then Inl TypeError else Inr (a\<lparr>events := events a @ [LoggingError ident]\<rparr>))"

definition topic_json_path :: "string \<Rightarrow> string \<Rightarrow> string" where
  "topic_json_path ident slug = ''/t/'' @ slug @ ''/'' @ ident @ ''.json''"

text \<open>The body of the loop \<open>for id, topic_slug in tqdm(filtered_tuples)\<close>.\<close>

definition backfill_one ::
  "runtime \<Rightarrow> env \<Rightarrow> string \<Rightarrow> string \<Rightarrow> archive \<Rightarrow> (error + archive) option" where
  "backfill_one rt e ident slug a =
     (case http_get_json e (topic_json_path ident slug) of
        None \<Rightarrow> None
      | Some (Inl err) \<Rightarrow> Some (Inl err)
      | Some (Inr data) \<Rightarrow>
          (case http_get e (''/raw/'' @ ident) of
             None \<Rightarrow> None
           | Some (Inl err, _) \<Rightarrow> Some (Inl err)
           | Some (Inr body, _) \<Rightarrow>
               (let page_num = 2
                in if body = [] then Some (log_warning_str rt ident a)
                   else
                     (case more_pages e ident page_num body of
                        None \<Rightarrow> None
                      | Some (Inl err) \<Rightarrow> Some (Inl err)
                      | Some (Inr body') \<Rightarrow>
                          (case data of
                             JTopic t \<Rightarrow> Some (Inr (Topic_save_rendered (Topic_from_json t body') a))
                           | _ \<Rightarrow> Some (Inl KeyError))))))"

fun backfill_all ::
  "runtime \<Rightarrow> env \<Rightarrow> (string \<times> string) list \<Rightarrow> archive \<Rightarrow> (error + archive) option" where
  "backfill_all rt e [] a = Some (Inr a)"
| "backfill_all rt e ((ident, slug) # rest) a =
     (case backfill_one rt e ident slug a of
        None \<Rightarrow> None
      | Some (Inl err) \<Rightarrow> Some (Inl err)
      | Some (Inr a') \<Rightarrow> backfill_all rt e rest a')"

text \<open>
  \<open>renderFromJSONs\<close> from the rows \<open>data\<close> loaded from \<open>topics_array.npy\<close>; the call of
  \<open>collect_ids\<close> is commented out in the source. A row whose identifier \<open>int\<close> rejects ends
  the run when the rows are compared, before any topic is fetched.
\<close>

definition renderFromJSONs ::
  "runtime \<Rightarrow> env \<Rightarrow> (string \<times> string) list \<Rightarrow> archive \<Rightarrow> (error + archive) option" where
  "renderFromJSONs rt e data a =
     (let rows = unique_data rt data;
          id_array = rendered_ids a
      in if list_ex (\<lambda>t. py_int (fst t) = None) rows then Some (Inl ValueError)
         else backfill_all rt e (filtered_tuples rt rows id_array) a)"


section \<open>Example values\<close>

definition example_date :: datetime where
  "example_date = \<lparr>year = 2024, month = 1, day = 10, hour = 12, minute = 0, second = 0,
     microsecond = 0\<rparr>"

definition example_post_json :: post_json where
  "example_post_json = \<lparr>pj_id = 42, pj_username = ''alice'', pj_topic_slug = ''hello'',
     pj_topic_id = 7, pj_topic_title = ''Hello'', pj_created_at = example_date\<rparr>"

definition example_topic_json :: topic_json where
  "example_topic_json = \<lparr>tj_id = 7, tj_slug = ''hello'', tj_title = ''Hello'',
     tj_created_at = example_date\<rparr>"

definition example_post :: Post where
  "example_post = Post_from_json example_post_json"

definition example_topic :: Topic where
  "example_topic = Topic_from_json example_topic_json ''body''"

text \<open>The delays slept before the first \<open>c\<close> retries: 3, 6, 12, ...\<close>

definition delays :: "nat \<Rightarrow> int list" where
  "delays c = map (\<lambda>k. 3 * 2 ^ k) [0..<c]"

text \<open>A server whose first two attempts fail.\<close>
definition flaky_env :: env where
  "flaky_env = \<lparr>url = ''http://forum'', urlopen = (\<lambda>u n. if n < 2 then None else Some ''ok''),
     json_loads = (\<lambda>s. None)\<rparr>"

text \<open>
  A server that answers every request at the first attempt, from a table of bodies by URL (and
  with an empty body for any other URL), and a JSON decoder given by a table.
\<close>

definition table_env :: "(string \<times> string) list \<Rightarrow> (string \<times> json) list \<Rightarrow> env" where
  "table_env pages docs =
     \<lparr>url = ''http://forum'',
      urlopen = (\<lambda>u n. Some (case map_of pages u of Some b \<Rightarrow> b | None \<Rightarrow> [])),
      json_loads = map_of docs\<rparr>"

definition empty_archive :: archive where
  "empty_archive = \<lparr>posts_dir = [], topics_dir = [], metadata_file = None, events = []\<rparr>"

text \<open>Topic 7 has three pages of raw text; the fourth page is empty.\<close>

definition three_page_env :: env where
  "three_page_env =
     table_env
       [(''http://forum/t/7.json'', ''topic 7''),
        (''http://forum/raw/7'', ''page one''),
        (''http://forum/raw/7?page=2'', ''page two''),
        (''http://forum/raw/7?page=3'', ''page three'')]
       [(''topic 7'', JTopic example_topic_json)]"

text \<open>Topic 7 has no raw text at all; topic 8 has a single page.\<close>

definition example_topic8_json :: topic_json where
  "example_topic8_json = \<lparr>tj_id = 8, tj_slug = ''world'', tj_title = ''World'',
     tj_created_at = example_date\<rparr>"

definition skip_env :: env where
  "skip_env =
     table_env
       [(''http://forum/t/7.json'', ''topic 7''),
        (''http://forum/t/8.json'', ''topic 8''),
        (''http://forum/raw/8'', ''only page'')]
       [(''topic 7'', JTopic example_topic_json), (''topic 8'', JTopic example_topic8_json)]"

text \<open>A topic whose slug itself contains the pattern the reconciler looks for.\<close>

definition pattern_slug_topic :: Topic where
  "pattern_slug_topic =
     Topic_from_json \<lparr>tj_id = 7, tj_slug = ''a-id9.md'', tj_title = ''Hello'',
       tj_created_at = example_date\<rparr> ''body''"

text \<open>The posts saved and the checkpoints written, in the order of the run.\<close>

definition saved_posts :: "archive \<Rightarrow> post_json list" where
  "saved_posts a = concat (map (\<lambda>ev. case ev of SavedPost p \<Rightarrow> [p] | _ \<Rightarrow> []) (events a))"

definition metadata_writes :: "archive \<Rightarrow> datetime list" where
  "metadata_writes a = concat (map (\<lambda>ev. case ev of WroteMetadata d \<Rightarrow> [d] | _ \<Rightarrow> []) (events a))"

definition newest_post :: post_json where
  "newest_post = \<lparr>pj_id = 100, pj_username = ''alice'', pj_topic_slug = ''hello'',
     pj_topic_id = 7, pj_topic_title = ''Hello'', pj_created_at = example_date\<rparr>"

definition older_post :: post_json where
  "older_post = \<lparr>pj_id = 40, pj_username = ''bob'', pj_topic_slug = ''hello'',
     pj_topic_id = 7, pj_topic_title = ''Hello'', pj_created_at = example_date\<rparr>"

text \<open>
  The listing is empty for \<open>before=99\<close> and holds post 40 for \<open>before=50\<close>, that is 49 below;
  the cursors 51, 2 and -47 give empty pages.
\<close>

definition cursor_env :: env where
  "cursor_env =
     table_env
       [(''http://forum/posts.json'', ''first page''),
        (''http://forum/posts.json?before=99'', ''no posts''),
        (''http://forum/posts.json?before=50'', ''older page''),
        (''http://forum/posts.json?before=51'', ''no posts''),
        (''http://forum/posts.json?before=2'', ''no posts''),
        (''http://forum/posts.json?before=-47'', ''no posts''),
        (''http://forum/t/7.json'', ''topic 7'')]
       [(''first page'', JPosts [newest_post]), (''no posts'', JPosts []),
        (''older page'', JPosts [older_post]), (''topic 7'', JTopic example_topic_json)]"

text \<open>The variables and the archive after the page that holds only \<open>newest_post\<close>.\<close>

definition after_first_page :: "vars \<times> archive" where
  "after_first_page =
     (\<lparr>topics_to_get = [(7, \<lparr>pt_id = 7, pt_slug = ''hello'', pt_title = ''Hello''\<rparr>)],
       max_created_at = Some example_date, last_created_at = Some example_date,
       last_id = Some 100, no_new_posts = False\<rparr>,
      Post_save (Post_from_json newest_post) empty_archive)"

text \<open>
  What the loops of the post archiver do to the variables and the archive, given the cutoff
  \<open>c\<close>: they save the posts \<open>saved\<close>, none of them older than the cutoff, touch neither the
  metadata file nor the rendered topics, and set \<open>max_created_at\<close> once, at the first post
  saved.
\<close>

definition extends :: "datetime option \<Rightarrow> vars \<times> archive \<Rightarrow> vars \<times> archive \<Rightarrow> post_json list \<Rightarrow> bool" where
  "extends c va va' saved =
     (events (snd va') = events (snd va) @ map SavedPost saved
      \<and> metadata_file (snd va') = metadata_file (snd va)
      \<and> topics_dir (snd va') = topics_dir (snd va)
      \<and> (case c of None \<Rightarrow> True
          | Some d \<Rightarrow> list_all (\<lambda>p. \<not> dt_less (pj_created_at p) d) saved)
      \<and> max_created_at (fst va') =
          (case max_created_at (fst va) of
             Some m \<Rightarrow> Some m
           | None \<Rightarrow> (case saved of [] \<Rightarrow> None | p # _ \<Rightarrow> Some (pj_created_at p))))"

definition next_day :: datetime where
  "next_day = \<lparr>year = 2024, month = 1, day = 11, hour = 12, minute = 0, second = 0,
     microsecond = 0\<rparr>"

definition morning :: datetime where
  "morning = \<lparr>year = 2024, month = 1, day = 10, hour = 6, minute = 0, second = 0,
     microsecond = 0\<rparr>"

definition early_first :: post_json where
  "early_first = \<lparr>pj_id = 2, pj_username = ''alice'', pj_topic_slug = ''hello'',
     pj_topic_id = 7, pj_topic_title = ''Hello'', pj_created_at = example_date\<rparr>"

definition late_second :: post_json where
  "late_second = \<lparr>pj_id = 1, pj_username = ''bob'', pj_topic_slug = ''hello'',
     pj_topic_id = 7, pj_topic_title = ''Hello'', pj_created_at = next_day\<rparr>"

definition morning_post :: post_json where
  "morning_post = \<lparr>pj_id = 1, pj_username = ''bob'', pj_topic_slug = ''hello'',
     pj_topic_id = 7, pj_topic_title = ''Hello'', pj_created_at = morning\<rparr>"

text \<open>The listing gives post 2, created on 10 January, before post 1, created a day later.\<close>

definition unordered_env :: env where
  "unordered_env =
     table_env
       [(''http://forum/posts.json'', ''first page''), (''http://forum/t/7.json'', ''topic 7'')]
       [(''first page'', JPosts [early_first, late_second]),
        (''topic 7'', JTopic example_topic_json)]"

text \<open>The newest post the listing gives was created at 06:00 on 10 January.\<close>

definition regress_env :: env where
  "regress_env =
     table_env
       [(''http://forum/posts.json'', ''first page''), (''http://forum/t/7.json'', ''topic 7'')]
       [(''first page'', JPosts [morning_post]), (''topic 7'', JTopic example_topic_json)]"

text \<open>An archive whose checkpoint is 12:00 on 10 January.\<close>

definition checkpointed :: archive where
  "checkpointed = empty_archive\<lparr>metadata_file := Some example_date\<rparr>"

text \<open>The archive after the warning for a topic without raw text.\<close>

definition skipped :: "string \<Rightarrow> archive \<Rightarrow> archive" where
  "skipped ident a = a\<lparr>events := events a @ [Warning ident]\<rparr>"

definition hello_topic :: PostTopic where
  "hello_topic = \<lparr>pt_id = 7, pt_slug = ''hello'', pt_title = ''Hello''\<rparr>"

definition read_metadata :: "archive \<Rightarrow> archive" where
  "read_metadata a = a\<lparr>events := events a @ [ReadMetadata]\<rparr>"

text \<open>
  The listing is empty for \<open>before=99\<close> and \<open>before=51\<close> and holds post 40 for \<open>before=2\<close>.
\<close>

definition deep_env :: env where
  "deep_env =
     table_env
       [(''http://forum/posts.json'', ''first page''),
        (''http://forum/posts.json?before=99'', ''no posts''),
        (''http://forum/posts.json?before=51'', ''no posts''),
        (''http://forum/posts.json?before=2'', ''older page'')]
       [(''first page'', JPosts [newest_post]), (''no posts'', JPosts []),
        (''older page'', JPosts [older_post])]"

text \<open>
  Two installations: one with \<open>rich\<close>, one without. Under their constant ranking a set of rows
  is iterated in the order in which \<open>remdups\<close> lists it; \<open>later_rank\<close> moves the rows of topic 7
  behind the others.
\<close>

definition rich_runtime :: runtime where
  "rich_runtime = \<lparr>rich = True, set_rank = (\<lambda>t. 0), np_wide = (\<lambda>ids i. False)\<rparr>"

definition plain_runtime :: runtime where
  "plain_runtime = \<lparr>rich = False, set_rank = (\<lambda>t. 0), np_wide = (\<lambda>ids i. False)\<rparr>"

definition later_rank :: "string \<times> string \<Rightarrow> nat" where
  "later_rank t = (if fst t = ''7'' then 1 else 0)"

text \<open>
  The documents of topics 7 and 8 under the paths the reconciler asks for; topic 7 has no raw
  text, topic 8 has one page.
\<close>

definition unrenderable_env :: env where
  "unrenderable_env =
     table_env
       [(''http://forum/t/hello/7.json'', ''topic 7''),
        (''http://forum/t/world/8.json'', ''topic 8''),
        (''http://forum/raw/8'', ''only page'')]
       [(''topic 7'', JTopic example_topic_json), (''topic 8'', JTopic example_topic8_json)]"

definition two_rows :: "(string \<times> string) list" where
  "two_rows = [(''7'', ''hello''), (''8'', ''world'')]"

text \<open>
  The topic the reconciler renders for a row: the row's document is a topic, its first page
  is not empty and its second page is empty, so that the text is the first page.
\<close>

definition rendered_topic :: "env \<Rightarrow> string \<times> string \<Rightarrow> Topic option" where
  "rendered_topic e t =
     (case http_get_json e (topic_json_path (fst t) (snd t)) of
        Some (Inr (JTopic tj)) \<Rightarrow>
          (case http_get e (''/raw/'' @ fst t) of
             Some (Inr body, _) \<Rightarrow>
               (case http_get e (raw_page_path (fst t) 2) of
                  Some (Inr more_body, _) \<Rightarrow>
                    if body \<noteq> [] \<and> more_body = [] then Some (Topic_from_json tj body) else None
                | _ \<Rightarrow> None)
           | _ \<Rightarrow> None)
      | _ \<Rightarrow> None)"

text \<open>
  The name of the file written for the topic leads back to the identifier of the row.
\<close>

definition leads_back :: "string \<times> string \<Rightarrow> Topic \<Rightarrow> bool" where
  "leads_back t T =
     (py_int (fst t) = Some (topic_id T) \<and> 0 \<le> topic_id T
      \<and> valid_datetime (Topic_get_created_at T) \<and> CHR ''.'' \<notin> set (take 50 (topic_slug T)))"

text \<open>Topics 7 and 8 have one page each; the rows name topic 7 twice.\<close>

definition backfill_env :: env where
  "backfill_env =
     table_env
       [(''http://forum/t/hello/7.json'', ''topic 7''),
        (''http://forum/t/world/8.json'', ''topic 8''),
        (''http://forum/raw/7'', ''first page''),
        (''http://forum/raw/8'', ''only page'')]
       [(''topic 7'', JTopic example_topic_json), (''topic 8'', JTopic example_topic8_json)]"

definition backfill_rows :: "(string \<times> string) list" where
  "backfill_rows = [(''7'', ''hello''), (''8'', ''world''), (''7'', ''hello'')]"

definition after_backfill :: archive where
  "after_backfill =
     Topic_save_rendered (Topic_from_json example_topic_json ''first page'')
       (Topic_save_rendered (Topic_from_json example_topic8_json ''only page'') empty_archive)"

text \<open>An archive that holds one post of topic 7 and no rendered topic.\<close>

definition posted :: archive where
  "posted = Post_save example_post empty_archive"

text \<open>The forum serves the topic whose slug contains the pattern.\<close>

definition pattern_env :: env where
  "pattern_env =
     table_env
       [(''http://forum/t/a-id9.md/7.json'', ''topic 7''),
        (''http://forum/raw/7'', ''body'')]
       [(''topic 7'', JTopic (topic_raw pattern_slug_topic))]"

definition pattern_rows :: "(string \<times> string) list" where
  "pattern_rows = [(''7'', ''a-id9.md'')]"

definition rendered_once :: archive where
  "rendered_once = Topic_save_rendered pattern_slug_topic empty_archive"


section \<open>Facts about decimal strings\<close>

lemma length_zfill: "length (zfill w s) = max w (length s)"
  by (auto simp: zfill_def split: list.splits)

lemma is_digit_digit_char: "d < 10 \<Longrightarrow> is_digit (digit_char d)"
  by (simp add: is_digit_def digit_char_def)

lemma digit_val_digit_char: "d < 10 \<Longrightarrow> digit_val (digit_char d) = d"
  by (simp add: digit_val_def digit_char_def)

lemma digits_all_digit: "list_all is_digit (digits n)"
  by (induction n rule: digits.induct) (subst digits.simps, simp add: is_digit_digit_char)

lemma digits_nonempty: "digits n \<noteq> []"
  by (subst digits.simps) simp

lemma nat_of_digits_snoc: "nat_of_digits (xs @ [c]) = 10 * nat_of_digits xs + digit_val c"
  by (simp add: nat_of_digits_def)

lemma nat_of_digits_digits: "nat_of_digits (digits n) = n"
proof (induction n rule: digits.induct)
  case (1 n)
  show ?case
  proof (cases "n < 10")
    case True
    then show ?thesis
      by (subst digits.simps) (simp add: nat_of_digits_def digit_val_digit_char)
  next
    case False
    then show ?thesis using 1
      by (subst digits.simps) (simp add: nat_of_digits_snoc digit_val_digit_char)
  qed
qed

lemma nat_of_digits_zeros: "nat_of_digits (replicate k CHR ''0'' @ xs) = nat_of_digits xs"
proof -
  have "foldl (\<lambda>a c. 10 * a + digit_val c) 0 (replicate k CHR ''0'') = 0"
    by (induction k) (simp_all add: digit_val_def)
  then show ?thesis by (simp add: nat_of_digits_def)
qed

text \<open>A number below \<open>10 ^ k\<close> has at most \<open>k\<close> digits.\<close>

lemma length_digits_le: "0 < k \<Longrightarrow> n < 10 ^ k \<Longrightarrow> length (digits n) \<le> k"
proof (induction n arbitrary: k rule: digits.induct)
  case (1 n)
  show ?case
  proof (cases "n < 10")
    case True
    then show ?thesis using 1(2) by (subst digits.simps) simp
  next
    case False
    then obtain j where k: "k = Suc j" using 1(2) by (cases k) auto
    with False 1(3) have "0 < j" by (cases j) auto
    moreover have "n div 10 < 10 ^ j" using 1(3) k
      by (simp add: less_mult_imp_div_less mult.commute)
    ultimately have "length (digits (n div 10)) \<le> j" using 1(1)[OF False] by blast
    then show ?thesis using False k by (subst digits.simps) simp
  qed
qed

section \<open>File names: length bound and identifier\<close>

lemma Post_filename_le: "length (Post_filename p) \<le> 100"
  unfolding Post_filename_def Let_def by (simp del: take_append)

lemma Topic_filename_le: "length (Topic_filename p) \<le> 150"
  unfolding Topic_filename_def Let_def by (simp del: take_append)

lemma zfill_nonneg: "0 \<le> i \<Longrightarrow> zfill w (str_int i) = replicate (w - length (digits (nat i))) CHR ''0'' @ digits (nat i)"
proof -
  assume "0 \<le> i"
  obtain c cs where d: "digits (nat i) = c # cs" using digits_nonempty by (cases "digits (nat i)") auto
  have "is_digit c" using digits_all_digit[of "nat i"] d by simp
  then have "c \<noteq> CHR ''-'' \<and> c \<noteq> CHR ''+''" by (auto simp: is_digit_def)
  then show ?thesis using \<open>0 \<le> i\<close> d by (simp add: zfill_def str_int_def)
qed

lemma idstr_value:
  assumes "0 \<le> i" 
  shows "list_all is_digit (zfill w (str_int i)) \<and> nat_of_digits (zfill w (str_int i)) = nat i"
  using assms digits_all_digit[of "nat i"]
  by (auto simp: zfill_nonneg nat_of_digits_zeros nat_of_digits_digits list_all_iff is_digit_def)

lemma idstr_length:
  assumes "0 \<le> i" "i < 10 ^ 10"
  shows "length (zfill 10 (str_int i)) = 10"
proof -
  have "nat i < 10 ^ 10" using assms by (simp add: nat_less_iff)
  then have "length (digits (nat i)) \<le> 10" using length_digits_le[of 10 "nat i"] by simp
  then show ?thesis using assms by (simp add: zfill_nonneg)
qed

lemma length_pad0: "length (pad0 w n) = max w (length (digits n))"
  by (simp add: pad0_def)

lemma length_date_str:
  assumes "valid_datetime d" shows "length (date_str d) = 10"
proof -
  have y: "year d < 10 ^ 4" and m: "month d < 10 ^ 2" and dd: "day d < 10 ^ 2"
    using assms by (auto simp: valid_datetime_def days_in_month_def split: if_splits)
  have "length (digits (year d)) \<le> 4" "length (digits (month d)) \<le> 2" "length (digits (day d)) \<le> 2"
    using length_digits_le[OF _ y] length_digits_le[OF _ m] length_digits_le[OF _ dd] by simp_all
  then show ?thesis by (simp add: date_str_def length_pad0)
qed

lemma Post_filename_small:
  assumes "0 \<le> post_id p" "post_id p < 10 ^ 10"
  shows "Post_filename p = zfill 10 (str_int (post_id p)) @ ''-'' @ take 10 (pj_username (post_raw p))
            @ ''-'' @ take 50 (pj_topic_slug (post_raw p)) @ ''.json''"
  using idstr_length[OF assms] by (simp add: Post_filename_def Let_def)

lemma Topic_filename_small:
  assumes "0 \<le> topic_id t" "topic_id t < 10 ^ 10" "valid_datetime (Topic_get_created_at t)"
  shows "Topic_filename t = date_str (Topic_get_created_at t) @ ''-'' @ take 50 (topic_slug t)
            @ ''-id'' @ zfill 10 (str_int (topic_id t)) @ ''.md''"
  using idstr_length[OF assms(1,2)] length_date_str[OF assms(3)] by (simp add: Topic_filename_def Let_def)

text \<open>
  Claim C7. The path computed by \<open>Post.save\<close> depends only on the post's identifier, user name,
  topic slug and creation date, and the path computed by \<open>Topic.save_rendered\<close> only on the
  topic's identifier, slug and creation date. A post file name never has more than 100
  characters and a topic file name never more than 150, whatever the lengths of the input
  strings. For an identifier between 0 and \<open>10 ^ 10 - 1\<close> the name is not clamped and carries the
  identifier as exactly ten decimal digits, padded with zeros, whose value is the identifier.
\<close>

theorem filename_deterministic_and_bounded:
  "length (Post_filename p) \<le> 100 \<and> length (Topic_filename t) \<le> 150
   \<and> (post_id p = post_id p' \<and> pj_username (post_raw p) = pj_username (post_raw p')
        \<and> pj_topic_slug (post_raw p) = pj_topic_slug (post_raw p')
        \<and> pj_created_at (post_raw p) = pj_created_at (post_raw p')
      \<longrightarrow> Post_path p = Post_path p')
   \<and> (topic_id t = topic_id t' \<and> topic_slug t = topic_slug t'
        \<and> tj_created_at (topic_raw t) = tj_created_at (topic_raw t')
      \<longrightarrow> Topic_path t = Topic_path t')
   \<and> (0 \<le> post_id p \<and> post_id p < 10 ^ 10 \<longrightarrow>
        Post_filename p = zfill 10 (str_int (post_id p)) @ ''-'' @ take 10 (pj_username (post_raw p))
            @ ''-'' @ take 50 (pj_topic_slug (post_raw p)) @ ''.json''
        \<and> length (zfill 10 (str_int (post_id p))) = 10
        \<and> list_all is_digit (zfill 10 (str_int (post_id p)))
        \<and> nat_of_digits (zfill 10 (str_int (post_id p))) = nat (post_id p))
   \<and> (0 \<le> topic_id t \<and> topic_id t < 10 ^ 10 \<and> valid_datetime (Topic_get_created_at t) \<longrightarrow>
        Topic_filename t = date_str (Topic_get_created_at t) @ ''-'' @ take 50 (topic_slug t)
            @ ''-id'' @ zfill 10 (str_int (topic_id t)) @ ''.md''
        \<and> length (zfill 10 (str_int (topic_id t))) = 10
        \<and> list_all is_digit (zfill 10 (str_int (topic_id t)))
        \<and> nat_of_digits (zfill 10 (str_int (topic_id t))) = nat (topic_id t))"
proof -
  have det_post: "Post_path p = Post_path p'"
    if "post_id p = post_id p' \<and> pj_username (post_raw p) = pj_username (post_raw p')
        \<and> pj_topic_slug (post_raw p) = pj_topic_slug (post_raw p')
        \<and> pj_created_at (post_raw p) = pj_created_at (post_raw p')"
    using that by (simp add: Post_path_def Post_filename_def Post_get_created_at_def)
  have det_topic: "Topic_path t = Topic_path t'"
    if "topic_id t = topic_id t' \<and> topic_slug t = topic_slug t'
        \<and> tj_created_at (topic_raw t) = tj_created_at (topic_raw t')"
    using that by (simp add: Topic_path_def Topic_filename_def Topic_get_created_at_def)
  show ?thesis
    using Post_filename_le[of p] Topic_filename_le[of t] det_post det_topic
      Post_filename_small[of p] Topic_filename_small[of t]
      idstr_length[of "post_id p"] idstr_length[of "topic_id t"]
      idstr_value[of "post_id p" 10] idstr_value[of "topic_id t" 10]
    by blast
qed


theorem filename_deterministic_and_bounded_witness:
  "Post_path example_post = (''2024-01-January'', ''0000000042-alice-hello.json'')
   \<and> Topic_path example_topic = (''2024-01-January'', ''2024-01-10-hello-id0000000007.md'')
   \<and> length (Post_filename example_post) \<le> 100 \<and> length (Topic_filename example_topic) \<le> 150
   \<and> nat_of_digits (zfill 10 (str_int (post_id example_post))) = 42
   \<and> nat_of_digits (zfill 10 (str_int (topic_id example_topic))) = 7"
proof -
  have h1: "0 \<le> post_id example_post \<and> post_id example_post < 10 ^ 10"
    by (simp add: example_post_def Post_from_json_def example_post_json_def)
  have h2: "0 \<le> topic_id example_topic \<and> topic_id example_topic < 10 ^ 10
      \<and> valid_datetime (Topic_get_created_at example_topic)"
    by (simp add: example_topic_def Topic_from_json_def example_topic_json_def
        Topic_get_created_at_def example_date_def valid_datetime_def days_in_month_def)
  have e1: "zfill 10 (str_int 42) = ''0000000042''" by code_simp
  have e2: "zfill 10 (str_int 7) = ''0000000007''" by code_simp
  have e3: "date_str (Topic_get_created_at example_topic) = ''2024-01-10''" by code_simp
  have e4: "folder_name (Topic_get_created_at example_topic) = ''2024-01-January''" by code_simp
  have e5: "folder_name (Post_get_created_at example_post) = ''2024-01-January''" by code_simp
  have v1: "post_id example_post = 42" "topic_id example_topic = 7" 
    "pj_username (post_raw example_post) = ''alice''" "pj_topic_slug (post_raw example_post) = ''hello''"
    "topic_slug example_topic = ''hello''"
    by (simp_all add: example_post_def Post_from_json_def example_post_json_def example_topic_def Topic_from_json_def example_topic_json_def)
  show ?thesis
    using filename_deterministic_and_bounded[of example_post example_topic example_post example_topic]
      h1 h2 
    by (simp add: e1 e2 e3 e4 e5 v1 Post_path_def Topic_path_def)
qed

section \<open>The resilient fetcher: bounded exponential backoff\<close>

lemma delays_Suc: "delays (Suc c) = delays c @ [3 * 2 ^ c]"
  by (simp add: delays_def)

lemma pow2_le_64: "c \<le> 6 \<Longrightarrow> (2::int) ^ c \<le> 64"
  using power_increasing[of c 6 "2::int"] by simp

lemma http_get_loop_failures:
  "c \<le> 6 \<Longrightarrow> \<forall>i<c. attempt i = None \<Longrightarrow>
     http_get_loop attempt 0 3 [] = http_get_loop attempt c (3 * 2 ^ c) (delays c)"
proof (induction c)
  case 0
  then show ?case by (simp add: delays_def)
next
  case (Suc c)
  have "(2::int) ^ Suc c \<le> 64" using Suc.prems(1) by (rule pow2_le_64)
  then have small: "\<not> 256 \<le> (3 * 2 ^ c * 2 :: int)" by simp
  have "http_get_loop attempt 0 3 [] = http_get_loop attempt c (3 * 2 ^ c) (delays c)"
    using Suc by simp
  also have "\<dots> = http_get_loop attempt (Suc c) (3 * 2 ^ Suc c) (delays (Suc c))"
    using Suc.prems(2) small
    by (subst http_get_loop.simps) (simp add: delays_Suc Let_def)
  finally show ?case .
qed

lemma http_get_loop_success:
  assumes "c \<le> 6" "\<forall>i<c. attempt i = None" "attempt c = Some body"
  shows "http_get_loop attempt 0 3 [] = Some (Inr body, delays c)"
  using http_get_loop_failures[OF assms(1,2)] assms(3)
  by (simp add: http_get_loop.simps)

lemma http_get_loop_exhausted:
  assumes "\<forall>i<7. attempt i = None"
  shows "http_get_loop attempt 0 3 [] = Some (Inl (SystemExit 1), delays 7)"
proof -
  have "http_get_loop attempt 0 3 [] = http_get_loop attempt 6 (3 * 2 ^ 6) (delays 6)"
    using assms by (intro http_get_loop_failures) auto
  also have "\<dots> = Some (Inl (SystemExit 1), delays 6 @ [3 * 2 ^ 6])"
    using assms by (subst http_get_loop.simps) (simp add: Let_def)
  also have "delays 6 @ [3 * 2 ^ 6] = delays 7"
    using delays_Suc[of 6] by simp
  finally show ?thesis .
qed

lemma delays_props: "length (delays c) = c" "c \<le> 6 \<Longrightarrow> \<forall>d\<in>set (delays c). 2 * d < 256"
proof -
  show "length (delays c) = c" by (simp add: delays_def)
  assume c: "c \<le> 6"
  show "\<forall>d\<in>set (delays c). 2 * d < 256"
  proof
    fix d assume "d \<in> set (delays c)"
    then obtain k where k: "k < c" "d = 3 * 2 ^ k" by (auto simp: delays_def)
    then have "(2::int) ^ k \<le> 2 ^ 5" using c by (intro power_increasing) auto
    then show "2 * d < 256" using k by simp
  qed
qed

text \<open>
  Claim C3. Every call of \<open>http_get\<close> returns. The delays it sleeps are 3, 6, 12, ...: the
  first is 3 and each is twice the one before; every attempt before the last one failed. Either
  the attempt after these delays succeeded and the call returns its decoded body, every
  doubled delay having stayed below 256; or seven attempts failed, the doubled delay
  (384) has reached 256, and the process exits with status 1. So a fetch makes at most seven
  attempts, and a request that succeeds within these attempts returns the body.
\<close>

theorem http_get_backoff:
  "\<exists>r slept. http_get e path = Some (r, slept)
     \<and> length slept \<le> 7
     \<and> slept = map (\<lambda>k. 3 * 2 ^ k) [0..<length slept]
     \<and> (\<forall>k < length slept. urlopen e (url e @ path) k = None)
     \<and> (case r of
          Inr body \<Rightarrow> urlopen e (url e @ path) (length slept) = Some body
            \<and> (\<forall>d\<in>set slept. 2 * d < 256)
        | Inl err \<Rightarrow> err = SystemExit 1 \<and> length slept = 7 \<and> 256 \<le> 2 * last slept)
     \<and> ((\<exists>k<7. urlopen e (url e @ path) k \<noteq> None) \<longrightarrow> (\<exists>body. r = Inr body))"
proof -
  define A where "A = urlopen e (url e @ path)"
  have len: "length (delays c) = c" for c by (simp add: delays_def)
  have eq: "delays c = map (\<lambda>k. 3 * 2 ^ k) [0..<length (delays c)]" for c
    by (simp add: delays_def)
  show ?thesis
  proof (cases "\<exists>k<7. A k \<noteq> None")
    case True
    define c where "c = (LEAST k. A k \<noteq> None)"
    from True obtain k where k: "k < 7" "A k \<noteq> None" by auto
    have "A c \<noteq> None" unfolding c_def using k(2) by (rule LeastI)
    then obtain body where body: "A c = Some body" by auto
    have "c \<le> k" unfolding c_def using k(2) by (rule Least_le)
    then have c6: "c \<le> 6" using k(1) by simp
    have before: "\<forall>i<c. A i = None"
    proof (intro allI impI)
      fix i assume "i < c"
      then have "\<not> A i \<noteq> None" unfolding c_def by (rule not_less_Least)
      then show "A i = None" by simp
    qed
    have res: "http_get e path = Some (Inr body, delays c)"
      unfolding http_get_def using http_get_loop_success[OF c6 before body] by (simp add: A_def)
    show ?thesis
    proof (intro exI[of _ "Inr body"] exI[of _ "delays c"] conjI)
      show "http_get e path = Some (Inr body, delays c)" by (rule res)
      show "length (delays c) \<le> 7" using c6 by (simp add: len)
      show "delays c = map (\<lambda>k. 3 * 2 ^ k) [0..<length (delays c)]" by (rule eq)
      show "\<forall>k<length (delays c). urlopen e (url e @ path) k = None"
        using before by (simp add: len A_def)
      show "case Inr body of
              Inl err \<Rightarrow> err = SystemExit 1 \<and> length (delays c) = 7 \<and> 256 \<le> 2 * last (delays c)
            | Inr body \<Rightarrow> urlopen e (url e @ path) (length (delays c)) = Some body
                \<and> (\<forall>d\<in>set (delays c). 2 * d < 256)"
        using body delays_props(2)[OF c6] by (simp add: len A_def)
      show "(\<exists>k<7. urlopen e (url e @ path) k \<noteq> None) \<longrightarrow> (\<exists>body'. Inr body = Inr body')"
        by simp
    qed
  next
    case False
    then have all: "\<forall>i<7. A i = None" by auto
    have l: "last (delays 7) = 192" by (simp add: delays_def eval_nat_numeral)
    have res: "http_get e path = Some (Inl (SystemExit 1), delays 7)"
      unfolding http_get_def using http_get_loop_exhausted[OF all[unfolded A_def]] .
    show ?thesis
    proof (intro exI[of _ "Inl (SystemExit 1)"] exI[of _ "delays 7"] conjI)
      show "http_get e path = Some (Inl (SystemExit 1), delays 7)" by (rule res)
      show "length (delays 7) \<le> 7" by (simp add: len)
      show "delays 7 = map (\<lambda>k. 3 * 2 ^ k) [0..<length (delays 7)]" by (rule eq)
      show "\<forall>k<length (delays 7). urlopen e (url e @ path) k = None"
        using all by (simp add: len A_def)
      show "case Inl (SystemExit 1) of
              Inl err \<Rightarrow> err = SystemExit 1 \<and> length (delays 7) = 7 \<and> 256 \<le> 2 * last (delays 7)
            | Inr body \<Rightarrow> urlopen e (url e @ path) (length (delays 7)) = Some body
                \<and> (\<forall>d\<in>set (delays 7). 2 * d < 256)"
        by (simp add: len l)
      show "(\<exists>k<7. urlopen e (url e @ path) k \<noteq> None) \<longrightarrow> (\<exists>body. Inl (SystemExit 1) = Inr body)"
        using False by (simp add: A_def)
    qed
  qed
qed

theorem http_get_backoff_witness:
  "(\<exists>k<7. urlopen flaky_env (url flaky_env @ ''/posts.json'') k \<noteq> None)
   \<and> http_get flaky_env ''/posts.json'' = Some (Inr ''ok'', [3, 6])"
proof -
  define u where "u = url flaky_env @ ''/posts.json''"
  have A: "urlopen flaky_env u k = (if k < 2 then None else Some ''ok'')" for k
    by (simp add: flaky_env_def)
  have hyp: "\<exists>k<7. urlopen flaky_env u k \<noteq> None"
    by (rule exI[of _ 2]) (simp add: A)
  from http_get_backoff[of flaky_env "''/posts.json''"]
  obtain r slept where res: "http_get flaky_env ''/posts.json'' = Some (r, slept)"
    and sl: "slept = map (\<lambda>k. 3 * 2 ^ k) [0..<length slept]"
    and before: "\<forall>k < length slept. urlopen flaky_env u k = None"
    and cs: "case r of
          Inr body \<Rightarrow> urlopen flaky_env u (length slept) = Some body
            \<and> (\<forall>d\<in>set slept. 2 * d < 256)
        | Inl err \<Rightarrow> err = SystemExit 1 \<and> length slept = 7 \<and> 256 \<le> 2 * last slept"
    and ev: "(\<exists>k<7. urlopen flaky_env u k \<noteq> None) \<longrightarrow> (\<exists>body. r = Inr body)"
    unfolding u_def by blast
  from ev hyp obtain body where r: "r = Inr body" by blast
  with cs have at: "urlopen flaky_env u (length slept) = Some body" by simp
  then have ge: "\<not> length slept < 2" by (simp add: A split: if_splits)
  have "\<not> 2 < length slept"
  proof
    assume "2 < length slept"
    with before have "urlopen flaky_env u 2 = None" by blast
    then show False by (simp add: A)
  qed
  with ge have len: "length slept = 2" by simp
  with at have "body = ''ok''" by (simp add: A)
  moreover have "slept = [3, 6]" using sl by (simp add: len upt_rec)
  ultimately show ?thesis using res r hyp by (simp add: u_def)
qed

section \<open>Evaluating decimal strings\<close>

lemma digit_char_simps:
  "digit_char 0 = CHR ''0''" "digit_char 1 = CHR ''1''" "digit_char 2 = CHR ''2''"
  "digit_char 3 = CHR ''3''" "digit_char 4 = CHR ''4''" "digit_char 5 = CHR ''5''"
  "digit_char 6 = CHR ''6''" "digit_char 7 = CHR ''7''" "digit_char 8 = CHR ''8''"
  "digit_char 9 = CHR ''9''" "digit_char (Suc 0) = CHR ''1''"
  by (simp_all add: digit_char_def char_of_def bit_0)

lemmas str_int_eval = str_int_def digits.simps digit_char_simps

section \<open>The topic renderer\<close>

lemma http_get_first:
  "urlopen e (url e @ p) 0 = Some b \<Longrightarrow> http_get e p = Some (Inr b, [])"
  by (simp add: http_get_def http_get_loop.simps)

lemma table_env_get:
  "http_get (table_env pages docs) p =
     Some (Inr (case map_of pages (''http://forum'' @ p) of Some b \<Rightarrow> b | None \<Rightarrow> []), [])"
  by (rule http_get_first) (simp add: table_env_def)

text \<open>A second page that is not empty is fetched again and again: the loop never returns.\<close>

lemma more_pages_diverges:
  assumes "http_get e (raw_page_path ident page_num) = Some (Inr (c # cs), sl)"
  shows "more_pages e ident page_num body = None"
proof -
  have "more_pages e' i' n' b = Some y \<Longrightarrow>
      http_get e' (raw_page_path i' n') = Some (Inr (c # cs), sl) \<longrightarrow> False" for e' i' n' b y
    by (rule more_pages.raw_induct[where P = "\<lambda>e' i' n' b y.
          http_get e' (raw_page_path i' n') = Some (Inr (c # cs), sl) \<longrightarrow> False"])
       (auto split: option.splits sum.splits if_splits)
  then show ?thesis using assms by (cases "more_pages e ident page_num body") auto
qed

lemma more_pages_stop:
  assumes "http_get e (raw_page_path ident page_num) = Some (Inr [], sl)"
  shows "more_pages e ident page_num body = Some (Inr body)"
  using assms by (subst more_pages.simps) simp

text \<open>
  Claim C2, at the input of the spec's own example: pages one to three of topic 7 are not
  empty and page four is. \<open>page_num\<close> stays 2, so the renderer asks for page 2 forever; it
  neither returns nor writes a file.
\<close>

theorem render_three_pages_never_returns:
  "http_get three_page_env ''/raw/7'' = Some (Inr ''page one'', [])
   \<and> http_get three_page_env (raw_page_path ''7'' 2) = Some (Inr ''page two'', [])
   \<and> http_get three_page_env (raw_page_path ''7'' 3) = Some (Inr ''page three'', [])
   \<and> http_get three_page_env (raw_page_path ''7'' 4) = Some (Inr [], [])
   \<and> render_one three_page_env ''/t/7.json'' ''7'' empty_archive = None
   \<and> render_all three_page_env [main_topic_request \<lparr>pt_id = 7, pt_slug = ''hello'', pt_title = ''Hello''\<rparr>]
        empty_archive = None"
proof -
  have p1: "http_get three_page_env ''/raw/7'' = Some (Inr ''page one'', [])"
    by (simp add: three_page_env_def table_env_get)
  have p2: "http_get three_page_env (raw_page_path ''7'' 2) = Some (Inr ''page two'', [])"
    by (simp add: three_page_env_def table_env_get raw_page_path_def str_int_eval)
  have p3: "http_get three_page_env (raw_page_path ''7'' 3) = Some (Inr ''page three'', [])"
    by (simp add: three_page_env_def table_env_get raw_page_path_def str_int_eval)
  have p4: "http_get three_page_env (raw_page_path ''7'' 4) = Some (Inr [], [])"
    by (simp add: three_page_env_def table_env_get raw_page_path_def str_int_eval)
  have j: "http_get_json three_page_env ''/t/7.json'' = Some (Inr (JTopic example_topic_json))"
    by (simp add: http_get_json_def three_page_env_def table_env_get) (simp add: table_env_def)
  have loop: "more_pages three_page_env ''7'' 2 ''page one'' = None"
    using p2 by (rule more_pages_diverges)
  have one: "render_one three_page_env ''/t/7.json'' ''7'' empty_archive = None"
    using p1 by (simp add: render_one_def j loop)
  have req: "main_topic_request \<lparr>pt_id = 7, pt_slug = ''hello'', pt_title = ''Hello''\<rparr>
      = (''/t/7.json'', ''7'')"
    by (simp add: main_topic_request_def str_int_eval)
  show ?thesis using p1 p2 p3 p4 one by (simp add: req)
qed

lemma render_one_skip:
  assumes "http_get_json e json_path = Some (Inr data)"
    and "http_get e (''/raw/'' @ ident) = Some (Inr [], sl)"
  shows "render_one e json_path ident a = Some (Inr (a\<lparr>events := events a @ [Warning ident]\<rparr>))"
  using assms by (simp add: render_one_def)

lemma render_one_single_page:
  assumes "http_get_json e json_path = Some (Inr (JTopic t))"
    and "http_get e (''/raw/'' @ ident) = Some (Inr (c # cs), sl)"
    and "http_get e (raw_page_path ident 2) = Some (Inr [], sl')"
  shows "render_one e json_path ident a = Some (Inr (Topic_save_rendered (Topic_from_json t (c # cs)) a))"
  using assms by (simp add: render_one_def more_pages_stop)

text \<open>
  Claim C10. Whatever the configuration \<open>e\<close> (and so whatever \<open>url e\<close>), a topic that is rendered
  is written with the text of \<open>Topic.save_rendered\<close>, which ends with the link to
  \<open>https://discourse.slicer.org//t/<slug>/<id>\<close>: the host is fixed and followed by two slashes.
\<close>

theorem source_link_is_hard_coded:
  assumes "render_one e json_path ident a = Some (Inr a')"
    and "http_get e (''/raw/'' @ ident) = Some (Inr (c # cs), sl)"
  shows "\<exists>t. a' = Topic_save_rendered t a
           \<and> map_of (topics_dir a') (Topic_path t) = Some (Topic_markdown t)
           \<and> topic_url t = ''https://discourse.slicer.org//t/'' @ topic_slug t @ ''/'' @ str_int (topic_id t)
           \<and> (\<exists>text. Topic_markdown t = text @ ''[Link to the original post]('' @ topic_url t @ '')'')"
proof -
  from assms obtain t where "a' = Topic_save_rendered t a"
    by (auto simp: render_one_def split: option.splits sum.splits prod.splits json.splits)
  moreover have "map_of (topics_dir (Topic_save_rendered t a)) (Topic_path t) = Some (Topic_markdown t)"
    by (simp add: Topic_save_rendered_def update_conv')
  moreover have "topic_url t = ''https://discourse.slicer.org//t/'' @ topic_slug t @ ''/'' @ str_int (topic_id t)"
    by (simp add: topic_url_def base_url_def)
  moreover have "\<exists>text. Topic_markdown t = text @ ''[Link to the original post]('' @ topic_url t @ '')''"
    by (rule exI[of _ "''# '' @ tj_title (topic_raw t) @ newline @ newline @ markdown t @ newline @ newline"])
       (simp add: Topic_markdown_def)
  ultimately show ?thesis by blast
qed

theorem source_link_is_hard_coded_witness:
  "url skip_env = ''http://forum''
   \<and> render_one skip_env ''/t/8.json'' ''8'' empty_archive
       = Some (Inr (Topic_save_rendered (Topic_from_json example_topic8_json ''only page'') empty_archive))
   \<and> (\<exists>t. Topic_save_rendered (Topic_from_json example_topic8_json ''only page'') empty_archive
            = Topic_save_rendered t empty_archive
          \<and> topic_url t = ''https://discourse.slicer.org//t/'' @ topic_slug t @ ''/'' @ str_int (topic_id t))
   \<and> topic_url (Topic_from_json example_topic8_json ''only page'')
       = ''https://discourse.slicer.org//t/world/8''"
proof -
  have j8: "http_get_json skip_env ''/t/8.json'' = Some (Inr (JTopic example_topic8_json))"
    by (simp add: http_get_json_def skip_env_def table_env_get) (simp add: table_env_def)
  have r8: "http_get skip_env (''/raw/'' @ ''8'') = Some (Inr ''only page'', [])"
    by (simp add: skip_env_def table_env_get)
  have r82: "http_get skip_env (raw_page_path ''8'' 2) = Some (Inr [], [])"
    by (simp add: skip_env_def table_env_get raw_page_path_def str_int_eval)
  have one8: "render_one skip_env ''/t/8.json'' ''8'' empty_archive
      = Some (Inr (Topic_save_rendered (Topic_from_json example_topic8_json ''only page'') empty_archive))"
    using render_one_single_page[OF j8 r8 r82] .
  have u: "url skip_env = ''http://forum''" by (simp add: skip_env_def table_env_def)
  have l: "topic_url (Topic_from_json example_topic8_json ''only page'')
       = ''https://discourse.slicer.org//t/world/8''"
    by (simp add: topic_url_def base_url_def Topic_from_json_def example_topic8_json_def str_int_eval)
  from source_link_is_hard_coded[OF one8 r8]
  have "\<exists>t. Topic_save_rendered (Topic_from_json example_topic8_json ''only page'') empty_archive
            = Topic_save_rendered t empty_archive
          \<and> topic_url t = ''https://discourse.slicer.org//t/'' @ topic_slug t @ ''/'' @ str_int (topic_id t)"
    by blast
  then show ?thesis using one8 u l by simp
qed

section \<open>The identifier in the name of a rendered file\<close>

lemma no_dot_rest:
  "CHR ''.'' \<notin> set xs \<Longrightarrow> take 3 (dropWhile is_digit (xs @ CHR ''-'' # ys)) \<noteq> ''.md''"
  by (induction xs) (auto simp: is_digit_def)

lemma match_here_none:
  assumes "CHR ''.'' \<notin> set (c # cs)"
  shows "match_here ((c # cs) @ CHR ''-'' # ys) = None"
proof (cases cs)
  case Nil
  then show ?thesis by (simp add: match_here_def)
next
  case (Cons x cs1)
  show ?thesis
  proof (cases cs1)
    case Nil
    then show ?thesis using Cons by (simp add: match_here_def)
  next
    case (Cons y cs')
    then have "CHR ''.'' \<notin> set cs'" using assms \<open>cs = x # cs1\<close> by simp
    then show ?thesis using Cons \<open>cs = x # cs1\<close>
      by (simp add: match_here_def Let_def no_dot_rest)
  qed
qed

lemma match_here_id:
  assumes "ds \<noteq> []" "list_all is_digit ds"
  shows "match_here (''-id'' @ ds @ ''.md'') = Some ds"
proof -
  have d: "\<not> is_digit CHR ''.''" by (simp add: is_digit_def)
  have "takeWhile is_digit (ds @ ''.md'') = ds" "dropWhile is_digit (ds @ ''.md'') = ''.md''"
    using assms(2) d by (simp_all add: list_all_iff takeWhile_append2 dropWhile_append2)
  then show ?thesis using assms(1) by (simp add: match_here_def)
qed

text \<open>Without a dot before it, the final \<open>-id<digits>.md\<close> is the leftmost match.\<close>

lemma re_search_id_suffix:
  assumes "CHR ''.'' \<notin> set pre" "ds \<noteq> []" "list_all is_digit ds"
  shows "re_search_id (pre @ ''-id'' @ ds @ ''.md'') = Some ds"
  using assms(1)
proof (induction pre)
  case Nil
  have "re_search_id (''-id'' @ ds @ ''.md'') = Some ds"
    using match_here_id[OF assms(2,3)] by simp
  then show ?case by simp
next
  case (Cons c cs)
  have "match_here ((c # cs) @ CHR ''-'' # (''id'' @ ds @ ''.md'')) = None"
    using Cons.prems by (rule match_here_none)
  then show ?case using Cons by simp
qed

lemma endswith_append: "endswith (xs @ sfx) sfx"
  by (simp add: endswith_def)

lemma date_str_no_dot: "CHR ''.'' \<notin> set (date_str d)"
proof -
  have "CHR ''.'' \<notin> set (pad0 w n)" for w n
    using digits_all_digit[of n] by (auto simp: pad0_def list_all_iff is_digit_def)
  then show ?thesis by (simp add: date_str_def)
qed

lemma idstr_length_le:
  assumes "0 \<le> i" "i < 10 ^ k" "10 \<le> k"
  shows "length (zfill 10 (str_int i)) \<le> k"
proof -
  have "nat i < 10 ^ k" using assms(1,2) by (simp add: nat_less_iff)
  then have "length (digits (nat i)) \<le> k" using length_digits_le[of k "nat i"] assms(3) by simp
  then show ?thesis using assms by (simp add: zfill_nonneg)
qed

text \<open>The identifier read back from the name of a rendered file.\<close>

lemma topic_file_id:
  assumes "0 \<le> topic_id t" and "topic_id t < 10 ^ 83"
    and "valid_datetime (Topic_get_created_at t)"
    and "CHR ''.'' \<notin> set (take 50 (topic_slug t))"
  shows "file_id (Topic_filename t) = [topic_id t]"
proof -
  define idstr where "idstr = zfill 10 (str_int (topic_id t))"
  define pre where "pre = date_str (Topic_get_created_at t) @ ''-'' @ take 50 (topic_slug t)"
  have len: "length idstr \<le> 83"
    unfolding idstr_def using assms(1,2) by (intro idstr_length_le) simp_all
  have name: "Topic_filename t = pre @ ''-id'' @ idstr @ ''.md''"
    using len length_date_str[OF assms(3)]
    by (simp add: Topic_filename_def Let_def idstr_def[symmetric] pre_def)
  have nodot: "CHR ''.'' \<notin> set pre"
    using assms(4) date_str_no_dot by (simp add: pre_def)
  have ne: "idstr \<noteq> []" using length_zfill[of 10 "str_int (topic_id t)"] by (auto simp: idstr_def)
  have dig: "list_all is_digit idstr" and val: "nat_of_digits idstr = nat (topic_id t)"
    using idstr_value[OF assms(1), of 10] by (simp_all add: idstr_def)
  have "re_search_id (Topic_filename t) = Some idstr"
    unfolding name using nodot ne dig by (rule re_search_id_suffix)
  moreover have "endswith (Topic_filename t) ''.md''"
    using endswith_append[of "pre @ ''-id'' @ idstr" "''.md''"] by (simp add: name)
  ultimately show ?thesis using val assms(1) by (simp add: file_id_def)
qed

text \<open>
  Claim C8, as the code has it. For a topic whose identifier is not negative and below
  \<open>10 ^ 83\<close> (so that the name is not clamped), whose creation date is one Python can hold, and
  whose slug has no dot among its first 50 characters, the reconciler reads exactly the
  topic's identifier out of the name \<open>Topic.save_rendered\<close> gives the file.
\<close>

theorem rendered_name_round_trip:
  assumes "0 \<le> topic_id t" and "topic_id t < 10 ^ 83"
    and "valid_datetime (Topic_get_created_at t)"
    and "CHR ''.'' \<notin> set (take 50 (topic_slug t))"
  shows "file_id (Topic_filename t) = [topic_id t]"
  using assms by (rule topic_file_id)

theorem rendered_name_round_trip_witness:
  "0 \<le> topic_id example_topic \<and> topic_id example_topic < 10 ^ 83
   \<and> valid_datetime (Topic_get_created_at example_topic)
   \<and> CHR ''.'' \<notin> set (take 50 (topic_slug example_topic))
   \<and> file_id (Topic_filename example_topic) = [7]"
proof -
  have h1: "0 \<le> topic_id example_topic" and h2: "topic_id example_topic < 10 ^ 83"
    and h4: "CHR ''.'' \<notin> set (take 50 (topic_slug example_topic))"
    and v: "topic_id example_topic = 7"
    by (simp_all add: example_topic_def Topic_from_json_def example_topic_json_def)
  have h3: "valid_datetime (Topic_get_created_at example_topic)"
    by (simp add: example_topic_def Topic_from_json_def example_topic_json_def
        Topic_get_created_at_def example_date_def valid_datetime_def days_in_month_def)
  show ?thesis using rendered_name_round_trip[OF h1 h2 h3 h4] h1 h2 h3 h4 by (simp add: v)
qed

text \<open>
  The claim as the spec states it, for any slug, fails: with the slug \<open>a-id9.md\<close> the leftmost
  match of the pattern lies inside the slug, and the reconciler reads 9 for topic 7.
\<close>

theorem rendered_name_round_trip_counterexample:
  "topic_id pattern_slug_topic = 7
   \<and> Topic_filename pattern_slug_topic = ''2024-01-10-a-id9.md-id0000000007.md''
   \<and> file_id (Topic_filename pattern_slug_topic) = [9]"
proof -
  have "str_int 7 = ''7''" by (simp add: str_int_eval)
  then have z: "zfill 10 (str_int 7) = ''0000000007''"
    by (simp add: zfill_def eval_nat_numeral)
  have d: "date_str example_date = ''2024-01-10''"
    by (simp add: date_str_def pad0_def example_date_def digits.simps digit_char_simps)
  have n: "Topic_filename pattern_slug_topic = ''2024-01-10-a-id9.md-id0000000007.md''"
    by (simp add: Topic_filename_def pattern_slug_topic_def Topic_from_json_def
        Topic_get_created_at_def z d)
  have m: "re_search_id ''2024-01-10-a-id9.md-id0000000007.md'' = Some ''9''"
    by (simp add: match_here_def is_digit_def)
  have e: "endswith ''2024-01-10-a-id9.md-id0000000007.md'' ''.md''"
    by (simp add: endswith_def)
  have v: "nat_of_digits ''9'' = 9"
    by (simp add: nat_of_digits_def digit_val_def)
  have "file_id ''2024-01-10-a-id9.md-id0000000007.md'' = [9]"
    unfolding file_id_def m using e v by simp
  then show ?thesis using n by (simp add: pattern_slug_topic_def Topic_from_json_def)
qed

section \<open>Every fetch returns\<close>

lemma http_get_returns: "\<exists>r sl. http_get e p = Some (r, sl)"
proof -
  define A where "A = urlopen e (url e @ p)"
  show ?thesis
  proof (cases "\<exists>k<7. A k \<noteq> None")
    case True
    define c where "c = (LEAST k. A k \<noteq> None)"
    from True obtain k where k: "k < 7" "A k \<noteq> None" by auto
    have "A c \<noteq> None" unfolding c_def using k(2) by (rule LeastI)
    then obtain body where body: "A c = Some body" by auto
    have "c \<le> k" unfolding c_def using k(2) by (rule Least_le)
    then have c6: "c \<le> 6" using k(1) by simp
    have before: "\<forall>i<c. A i = None"
    proof (intro allI impI)
      fix i assume "i < c"
      then have "\<not> A i \<noteq> None" unfolding c_def by (rule not_less_Least)
      then show "A i = None" by simp
    qed
    show ?thesis
      unfolding http_get_def using http_get_loop_success[OF c6 before body] by (simp add: A_def)
  next
    case False
    then have "\<forall>i<7. A i = None" by auto
    then show ?thesis
      unfolding http_get_def using http_get_loop_exhausted[of A] by (simp add: A_def)
  qed
qed

lemma http_get_json_returns: "\<exists>r. http_get_json e p = Some r"
  using http_get_returns[of e p]
  by (auto simp: http_get_json_def split: sum.splits option.splits)

lemma latest_posts_returns: "\<exists>r. latest_posts e p = Some r"
  using http_get_json_returns[of e p]
  by (auto simp: latest_posts_def split: sum.splits json.splits)

section \<open>The scan over empty listing pages\<close>

lemma scan_window_unfold:
  "posts = [] \<and> 0 \<le> lid \<Longrightarrow>
   scan_window e lid posts =
     (case latest_posts e (before_path (lid - 49)) of
        None \<Rightarrow> None
      | Some (Inl err) \<Rightarrow> Some (Inl err)
      | Some (Inr posts') \<Rightarrow> scan_window e (lid - 49) posts')"
  by (subst scan_window.simps) (simp add: Let_def)

lemma scan_window_stops:
  "scan_window e K posts = Some (Inr (K', posts')) \<Longrightarrow> posts' \<noteq> [] \<or> K' < 0"
proof (induction e K posts rule: scan_window.induct)
  case (1 e lid posts)
  show ?case
  proof (cases "posts = [] \<and> 0 \<le> lid")
    case True
    from 1(2) obtain ps where ps: "latest_posts e (before_path (lid - 49)) = Some (Inr ps)"
      and rec: "scan_window e (lid - 49) ps = Some (Inr (K', posts'))"
      unfolding scan_window_unfold[OF True] by (auto split: option.splits sum.splits)
    show ?thesis using 1(1)[OF True refl ps refl rec] .
  next
    case False
    then show ?thesis using 1(2) by (subst (asm) scan_window.simps) auto
  qed
qed

lemma scan_window_returns: "\<exists>r. scan_window e K posts = Some r"
proof (induction e K posts rule: scan_window.induct)
  case (1 e lid posts)
  show ?case
  proof (cases "posts = [] \<and> 0 \<le> lid")
    case True
    obtain r where r: "latest_posts e (before_path (lid - 49)) = Some r"
      using latest_posts_returns by blast
    show ?thesis
    proof (cases r)
      case (Inl err)
      then show ?thesis using r by (simp add: scan_window_unfold[OF True])
    next
      case (Inr posts')
      then show ?thesis using r 1[OF True refl r Inr]
        by (simp add: scan_window_unfold[OF True])
    qed
  next
    case False
    then show ?thesis by (subst scan_window.simps) auto
  qed
qed

lemma table_env_json:
  "http_get_json (table_env pages docs) p =
     (case map_of docs (case map_of pages (''http://forum'' @ p) of Some b \<Rightarrow> b | None \<Rightarrow> []) of
        None \<Rightarrow> Some (Inl JSONDecodeError)
      | Some j \<Rightarrow> Some (Inr j))"
  by (simp add: http_get_json_def table_env_get) (simp add: table_env_def)

lemma table_env_latest:
  "latest_posts (table_env pages docs) p =
     (case map_of docs (case map_of pages (''http://forum'' @ p) of Some b \<Rightarrow> b | None \<Rightarrow> []) of
        None \<Rightarrow> Some (Inl JSONDecodeError)
      | Some j \<Rightarrow> (case j of JPosts ps \<Rightarrow> Some (Inr ps) | _ \<Rightarrow> Some (Inl KeyError)))"
  by (simp add: latest_posts_def table_env_json split: option.splits)

lemma process_first_page:
  "process_posts None [newest_post] (init_vars, empty_archive) = after_first_page"
  by (simp add: after_first_page_def init_vars_def Post_from_json_def Post_get_created_at_def
      Post_get_topic_def newest_post_def Let_def)

lemma scan_window_exit:
  "posts \<noteq> [] \<or> K < 0 \<Longrightarrow> scan_window e K posts = Some (Inr (K, posts))"
  by (subst scan_window.simps) auto

text \<open>
  The scan after \<open>n\<close> steps: the pages at \<open>K - 49\<close>, \<open>K - 98\<close>, ... were empty, at cursors that
  were not negative, and the \<open>n\<close>-th page is not empty or its cursor is negative.
\<close>

lemma scan_window_steps:
  assumes "0 \<le> K" "1 \<le> n"
    and "\<forall>j. 1 \<le> j \<and> j < n \<longrightarrow> latest_posts e (before_path (K - 49 * int j)) = Some (Inr [])"
    and "0 \<le> K - 49 * (int n - 1)"
    and "latest_posts e (before_path (K - 49 * int n)) = Some (Inr page)"
    and "page \<noteq> [] \<or> K - 49 * int n < 0"
  shows "scan_window e K [] = Some (Inr (K - 49 * int n, page))"
  using assms
proof (induction n arbitrary: K)
  case 0
  then show ?case by simp
next
  case (Suc m)
  show ?case
  proof (cases "m = 0")
    case True
    have "scan_window e (K - 49) page = Some (Inr (K - 49, page))"
      using Suc.prems(6) True by (intro scan_window_exit) simp
    then show ?thesis using Suc.prems(1,5) True by (simp add: scan_window_unfold)
  next
    case False
    then have m1: "1 \<le> m" by simp
    have first: "latest_posts e (before_path (K - 49)) = Some (Inr [])"
      using Suc.prems(3)[rule_format, of 1] False by simp
    have K49: "0 \<le> K - 49" using Suc.prems(4) m1 by simp
    have pages: "\<forall>j. 1 \<le> j \<and> j < m \<longrightarrow>
        latest_posts e (before_path (K - 49 - 49 * int j)) = Some (Inr [])"
    proof (intro allI impI)
      fix j assume j: "1 \<le> j \<and> j < m"
      then have c: "1 \<le> Suc j \<and> Suc j < Suc m" by simp
      have eqj: "K - 49 * int (Suc j) = K - 49 - 49 * int j" by simp
      from Suc.prems(3)[rule_format, OF c]
      show "latest_posts e (before_path (K - 49 - 49 * int j)) = Some (Inr [])"
        unfolding eqj .
    qed
    have eq: "K - 49 - 49 * int m = K - 49 * int (Suc m)" by simp
    have "scan_window e (K - 49) [] = Some (Inr (K - 49 - 49 * int m, page))"
    proof (rule Suc.IH[OF K49 m1 pages])
      show "0 \<le> K - 49 - 49 * (int m - 1)" using Suc.prems(4) by simp
      show "latest_posts e (before_path (K - 49 - 49 * int m)) = Some (Inr page)"
        unfolding eq by (rule Suc.prems(5))
      show "page \<noteq> [] \<or> K - 49 - 49 * int m < 0"
        unfolding eq by (rule Suc.prems(6))
    qed
    then show ?thesis using Suc.prems(1) first unfolding eq by (simp add: scan_window_unfold)
  qed
qed

text \<open>Every result of the scan comes from such a walk.\<close>

lemma scan_window_walk:
  "scan_window e K posts = Some (Inr (K', posts')) \<Longrightarrow> posts = [] \<Longrightarrow> 0 \<le> K \<Longrightarrow>
   \<exists>n\<ge>1. K' = K - 49 * int n
     \<and> (\<forall>j. 1 \<le> j \<and> j < n \<longrightarrow> latest_posts e (before_path (K - 49 * int j)) = Some (Inr []))
     \<and> 0 \<le> K - 49 * (int n - 1)
     \<and> latest_posts e (before_path K') = Some (Inr posts')
     \<and> (posts' \<noteq> [] \<or> K' < 0)"
proof (induction e K posts rule: scan_window.induct)
  case (1 e lid posts)
  have T: "posts = [] \<and> 0 \<le> lid" using 1(3,4) by simp
  from 1(2) obtain ps where ps: "latest_posts e (before_path (lid - 49)) = Some (Inr ps)"
    and rec: "scan_window e (lid - 49) ps = Some (Inr (K', posts'))"
    unfolding scan_window_unfold[OF T] by (auto split: option.splits sum.splits)
  show ?case
  proof (cases "ps = [] \<and> 0 \<le> lid - 49")
    case False
    then have "scan_window e (lid - 49) ps = Some (Inr (lid - 49, ps))"
      by (intro scan_window_exit) auto
    then have r: "K' = lid - 49" "posts' = ps" using rec by simp_all
    show ?thesis
      using ps False T unfolding r
      by (intro exI[of _ "1::nat"]) auto
  next
    case True
    from 1(1)[OF T refl ps refl rec] True obtain n where n: "1 \<le> n"
      "K' = lid - 49 - 49 * int n"
      "\<forall>j. 1 \<le> j \<and> j < n \<longrightarrow> latest_posts e (before_path (lid - 49 - 49 * int j)) = Some (Inr [])"
      "0 \<le> lid - 49 - 49 * (int n - 1)"
      "latest_posts e (before_path K') = Some (Inr posts')"
      "posts' \<noteq> [] \<or> K' < 0"
      by blast
    have pages: "\<forall>j. 1 \<le> j \<and> j < Suc n \<longrightarrow>
        latest_posts e (before_path (lid - 49 * int j)) = Some (Inr [])"
    proof (intro allI impI)
      fix j assume j: "1 \<le> j \<and> j < Suc n"
      show "latest_posts e (before_path (lid - 49 * int j)) = Some (Inr [])"
      proof (cases "j = 1")
        case True
        then show ?thesis using ps \<open>ps = [] \<and> 0 \<le> lid - 49\<close> by simp
      next
        case False
        then obtain i where i: "j = Suc i" "1 \<le> i" "i < n" using j by (cases j) auto
        have eqi: "lid - 49 * int j = lid - 49 - 49 * int i" using i(1) by simp
        have c: "1 \<le> i \<and> i < n" using i(2,3) by simp
        from n(3)[rule_format, OF c] show ?thesis unfolding eqi .
      qed
    qed
    have k: "K' = lid - 49 * int (Suc n)" using n(2) by simp
    have nn: "0 \<le> lid - 49 * (int (Suc n) - 1)" using n(4) by simp
    show ?thesis
      using pages k nn n(5,6)
      by (intro exI[of _ "Suc n"]) simp
  qed
qed

lemma archive_loop_scans:
  assumes "batch \<noteq> []" "process_posts c batch va = (v, a)" "\<not> no_new_posts v"
    and "last_id v = Some L" "1 < L"
    and "latest_posts e (before_path (L - 1)) = Some (Inr [])"
    and "scan_window e L [] = Some (Inr (L', page))"
  shows "archive_loop e c batch va = archive_loop e c page (v\<lparr>last_id := Some L'\<rparr>, a)"
  using assms by (subst archive_loop.simps) simp

text \<open>
  Claim C5, as the code has it. The scan over empty pages always returns, and it returns with
  a page that is not empty or with a negative \<open>last_id\<close>; it makes no request when the page it
  starts with is not empty or \<open>last_id\<close> is negative. From a cursor \<open>K\<close> that is not negative it
  goes down in steps of 49: when the pages at \<open>K - 49\<close>, ..., \<open>K - 49 (n - 1)\<close> are empty, with
  \<open>K - 49 (n - 1)\<close> not negative, and the page at \<open>K - 49 n\<close> is not empty or \<open>K - 49 n\<close> is
  negative, the scan returns that page with \<open>last_id = K - 49 n\<close>; and every result of the
  scan comes from such a walk. After a page that was not empty, the first request is
  \<open>before = last_id - 1\<close>; when it is empty, the archiver does not stop but scans from
  \<open>last_id\<close>, so that the next request is \<open>before = last_id - 49\<close>, and goes on with the posts
  the scan found.
\<close>

theorem empty_page_scan:
  "(\<exists>r. scan_window e K posts = Some r)
   \<and> (scan_window e K posts = Some (Inr (K', posts')) \<longrightarrow> posts' \<noteq> [] \<or> K' < 0)
   \<and> (posts \<noteq> [] \<or> K < 0 \<longrightarrow> scan_window e K posts = Some (Inr (K, posts)))
   \<and> (0 \<le> K \<and> 1 \<le> n
        \<and> (\<forall>j. 1 \<le> j \<and> j < n \<longrightarrow> latest_posts e (before_path (K - 49 * int j)) = Some (Inr []))
        \<and> 0 \<le> K - 49 * (int n - 1)
        \<and> latest_posts e (before_path (K - 49 * int n)) = Some (Inr page)
        \<and> (page \<noteq> [] \<or> K - 49 * int n < 0)
        \<longrightarrow> scan_window e K [] = Some (Inr (K - 49 * int n, page)))
   \<and> (0 \<le> K \<and> scan_window e K [] = Some (Inr (K', posts'))
        \<longrightarrow> (\<exists>m\<ge>1. K' = K - 49 * int m
               \<and> (\<forall>j. 1 \<le> j \<and> j < m \<longrightarrow>
                     latest_posts e (before_path (K - 49 * int j)) = Some (Inr []))
               \<and> 0 \<le> K - 49 * (int m - 1)
               \<and> latest_posts e (before_path K') = Some (Inr posts')))
   \<and> (batch \<noteq> [] \<and> process_posts c batch va = (v, a) \<and> \<not> no_new_posts v
        \<and> last_id v = Some L \<and> 1 < L
        \<and> latest_posts e (before_path (L - 1)) = Some (Inr [])
        \<and> 1 \<le> n
        \<and> (\<forall>j. 1 \<le> j \<and> j < n \<longrightarrow> latest_posts e (before_path (L - 49 * int j)) = Some (Inr []))
        \<and> 0 \<le> L - 49 * (int n - 1)
        \<and> latest_posts e (before_path (L - 49 * int n)) = Some (Inr page)
        \<and> (page \<noteq> [] \<or> L - 49 * int n < 0)
        \<longrightarrow> archive_loop e c batch va
              = archive_loop e c page (v\<lparr>last_id := Some (L - 49 * int n)\<rparr>, a))"
proof (intro conjI impI)
  show "\<exists>r. scan_window e K posts = Some r" by (rule scan_window_returns)
  show "posts' \<noteq> [] \<or> K' < 0" if "scan_window e K posts = Some (Inr (K', posts'))"
    using that by (rule scan_window_stops)
  show "scan_window e K posts = Some (Inr (K, posts))" if "posts \<noteq> [] \<or> K < 0"
    using that by (rule scan_window_exit)
  show "scan_window e K [] = Some (Inr (K - 49 * int n, page))"
    if "0 \<le> K \<and> 1 \<le> n
        \<and> (\<forall>j. 1 \<le> j \<and> j < n \<longrightarrow> latest_posts e (before_path (K - 49 * int j)) = Some (Inr []))
        \<and> 0 \<le> K - 49 * (int n - 1)
        \<and> latest_posts e (before_path (K - 49 * int n)) = Some (Inr page)
        \<and> (page \<noteq> [] \<or> K - 49 * int n < 0)"
    using that by (intro scan_window_steps) simp_all
  show "\<exists>m\<ge>1. K' = K - 49 * int m
               \<and> (\<forall>j. 1 \<le> j \<and> j < m \<longrightarrow>
                     latest_posts e (before_path (K - 49 * int j)) = Some (Inr []))
               \<and> 0 \<le> K - 49 * (int m - 1)
               \<and> latest_posts e (before_path K') = Some (Inr posts')"
    if "0 \<le> K \<and> scan_window e K [] = Some (Inr (K', posts'))"
    using scan_window_walk[of e K "[]" K' posts'] that by blast
  show "archive_loop e c batch va
              = archive_loop e c page (v\<lparr>last_id := Some (L - 49 * int n)\<rparr>, a)"
    if h: "batch \<noteq> [] \<and> process_posts c batch va = (v, a) \<and> \<not> no_new_posts v
        \<and> last_id v = Some L \<and> 1 < L
        \<and> latest_posts e (before_path (L - 1)) = Some (Inr [])
        \<and> 1 \<le> n
        \<and> (\<forall>j. 1 \<le> j \<and> j < n \<longrightarrow> latest_posts e (before_path (L - 49 * int j)) = Some (Inr []))
        \<and> 0 \<le> L - 49 * (int n - 1)
        \<and> latest_posts e (before_path (L - 49 * int n)) = Some (Inr page)
        \<and> (page \<noteq> [] \<or> L - 49 * int n < 0)"
  proof -
    have "scan_window e L [] = Some (Inr (L - 49 * int n, page))"
      using h by (intro scan_window_steps) simp_all
    then show ?thesis using h by (intro archive_loop_scans) simp_all
  qed
qed

theorem empty_page_scan_witness:
  "latest_posts deep_env (before_path (100 - 1)) = Some (Inr [])
   \<and> latest_posts deep_env (before_path (100 - 49 * int 1)) = Some (Inr [])
   \<and> latest_posts deep_env (before_path (100 - 49 * int 2)) = Some (Inr [older_post])
   \<and> scan_window deep_env 100 [] = Some (Inr (2, [older_post]))
   \<and> archive_loop deep_env None [newest_post] (init_vars, empty_archive)
       = archive_loop deep_env None [older_post]
           (fst after_first_page\<lparr>last_id := Some 2\<rparr>, snd after_first_page)"
proof -
  have p99: "latest_posts deep_env (before_path (100 - 1)) = Some (Inr [])"
    and p51: "latest_posts deep_env (before_path (100 - 49 * int 1)) = Some (Inr [])"
    and p2: "latest_posts deep_env (before_path (100 - 49 * int 2)) = Some (Inr [older_post])"
    by (simp_all add: deep_env_def table_env_latest before_path_def str_int_eval)
  have pages: "\<forall>j. 1 \<le> j \<and> j < (2::nat) \<longrightarrow>
      latest_posts deep_env (before_path (100 - 49 * int j)) = Some (Inr [])"
  proof (intro allI impI)
    fix j :: nat assume "1 \<le> j \<and> j < 2"
    then have "j = 1" by simp
    then show "latest_posts deep_env (before_path (100 - 49 * int j)) = Some (Inr [])"
      using p51 by simp
  qed
  have pp: "process_posts None [newest_post] (init_vars, empty_archive)
      = (fst after_first_page, snd after_first_page)"
    unfolding process_first_page by simp
  have v: "\<not> no_new_posts (fst after_first_page)" "last_id (fst after_first_page) = Some 100"
    by (simp_all add: after_first_page_def)
  note scan = empty_page_scan[where e = deep_env and K = 100 and posts = "[]" and K' = 2
      and posts' = "[older_post]" and page = "[older_post]" and n = 2
      and batch = "[newest_post]" and c = None and va = "(init_vars, empty_archive)"
      and v = "fst after_first_page" and a = "snd after_first_page" and L = 100]
  have s: "scan_window deep_env 100 [] = Some (Inr (100 - 49 * int 2, [older_post]))"
    by (rule scan[THEN conjunct2, THEN conjunct2, THEN conjunct2, THEN conjunct1, rule_format])
       (use pages p2 in simp)
  have l: "archive_loop deep_env None [newest_post] (init_vars, empty_archive)
       = archive_loop deep_env None [older_post]
           (fst after_first_page\<lparr>last_id := Some (100 - 49 * int 2)\<rparr>, snd after_first_page)"
    by (rule scan[THEN conjunct2, THEN conjunct2, THEN conjunct2, THEN conjunct2, THEN conjunct2,
          rule_format])
       (use pages p2 p99 pp v in \<open>simp del: process_posts.simps\<close>)
  show ?thesis using p99 p51 p2 s l by simp
qed

lemma archive_loop_empty: "archive_loop e c [] va = Some (Inr va)"
  by (subst archive_loop.simps) simp

lemma scan_window_done: "lid < 0 \<Longrightarrow> scan_window e lid posts = Some (Inr (lid, posts))"
  by (subst scan_window.simps) simp

text \<open>
  The claim as the spec states it fails. The endpoint is empty for \<open>before=99\<close>, the first
  cursor after post 100, and holds post 40 for \<open>before=50\<close>, 49 below. The archiver asks for
  51, 2 and -47, never for 50, and ends the run with post 100 as the only post saved.
\<close>

theorem empty_page_scan_counterexample:
  "latest_posts cursor_env (before_path 99) = Some (Inr [])
   \<and> latest_posts cursor_env (before_path (99 - 49)) = Some (Inr [older_post])
   \<and> scan_window cursor_env 100 [] = Some (Inr (- 47, []))
   \<and> main cursor_env empty_archive
       = Some (Inr (write_metadata example_date (snd after_first_page)
                     \<lparr>events := events (write_metadata example_date (snd after_first_page))
                        @ [Warning ''7'']\<rparr>))
   \<and> saved_posts (write_metadata example_date (snd after_first_page)
                     \<lparr>events := events (write_metadata example_date (snd after_first_page))
                        @ [Warning ''7'']\<rparr>) = [newest_post]"
proof -
  have l0: "latest_posts cursor_env ''/posts.json'' = Some (Inr [newest_post])"
    by (simp add: cursor_env_def table_env_latest)
  have l99: "latest_posts cursor_env (before_path 99) = Some (Inr [])"
    and l50: "latest_posts cursor_env (before_path (99 - 49)) = Some (Inr [older_post])"
    and l51: "latest_posts cursor_env (before_path (100 - 49)) = Some (Inr [])"
    and l2: "latest_posts cursor_env (before_path (100 - 49 - 49)) = Some (Inr [])"
    and l47: "latest_posts cursor_env (before_path (100 - 49 - 49 - 49)) = Some (Inr [])"
    by (simp_all add: cursor_env_def table_env_latest before_path_def str_int_eval)
  have "scan_window cursor_env (100 - 49 - 49 - 49) [] = Some (Inr (100 - 49 - 49 - 49, []))"
    by (rule scan_window_done) simp
  then have "scan_window cursor_env (100 - 49 - 49) [] = Some (Inr (100 - 49 - 49 - 49, []))"
    using l47 by (subst scan_window_unfold) simp_all
  then have "scan_window cursor_env (100 - 49) [] = Some (Inr (100 - 49 - 49 - 49, []))"
    using l2 by (subst scan_window_unfold) simp_all
  then have "scan_window cursor_env 100 [] = Some (Inr (100 - 49 - 49 - 49, []))"
    using l51 by (subst scan_window_unfold) simp_all
  then have scan: "scan_window cursor_env 100 [] = Some (Inr (- 47, []))" by simp
  have loop: "archive_loop cursor_env None [newest_post] (init_vars, empty_archive)
      = Some (Inr (fst after_first_page\<lparr>last_id := Some (- 47)\<rparr>, snd after_first_page))"
    using l99 scan
    by (subst archive_loop.simps, unfold process_first_page)
       (simp add: after_first_page_def archive_loop_empty)
  have j7: "http_get_json cursor_env ''/t/7.json'' = Some (Inr (JTopic example_topic_json))"
    by (simp add: cursor_env_def table_env_json)
  have r7: "http_get cursor_env (''/raw/'' @ ''7'') = Some (Inr [], [])"
    by (simp add: cursor_env_def table_env_get)
  have req: "main_topic_request \<lparr>pt_id = 7, pt_slug = ''hello'', pt_title = ''Hello''\<rparr>
      = (''/t/7.json'', ''7'')"
    by (simp add: main_topic_request_def str_int_eval)
  have m: "main cursor_env empty_archive
       = Some (Inr (write_metadata example_date (snd after_first_page)
                     \<lparr>events := events (write_metadata example_date (snd after_first_page))
                        @ [Warning ''7'']\<rparr>))"
    unfolding main_def
    by (simp add: empty_archive_def[symmetric] l0 loop)
       (simp add: empty_archive_def after_first_page_def req render_one_skip[OF j7 r7])
  have s: "saved_posts (write_metadata example_date (snd after_first_page)
                     \<lparr>events := events (write_metadata example_date (snd after_first_page))
                        @ [Warning ''7'']\<rparr>) = [newest_post]"
    by (simp add: saved_posts_def write_metadata_def after_first_page_def Post_save_def
        empty_archive_def Post_from_json_def)
  show ?thesis using l99 l50 scan m s by simp
qed

section \<open>The checkpoint\<close>

lemma extends_refl: "extends c va va []"
  by (simp add: extends_def split: option.splits)

lemma extends_trans:
  "extends c va vb s1 \<Longrightarrow> extends c vb vc s2 \<Longrightarrow> extends c va vc (s1 @ s2)"
  by (auto simp: extends_def split: option.splits list.splits)

lemma extends_last_id:
  "extends c va (v, a) s \<Longrightarrow> extends c va (v\<lparr>last_id := x\<rparr>, a) s"
  by (simp add: extends_def)

lemma process_posts_break:
  assumes "c = Some d" "dt_less (pj_created_at json_post) d"
  shows "extends c (v, a) (process_posts c (json_post # rest) (v, a)) []"
  using assms
  by (simp add: extends_def Let_def Post_get_created_at_def Post_from_json_def
      split: option.splits)

lemma process_posts_save:
  assumes "case c of None \<Rightarrow> True | Some d \<Rightarrow> \<not> dt_less (pj_created_at json_post) d"
  shows "\<exists>V A. process_posts c (json_post # rest) (v, a) = process_posts c rest (V, A)
           \<and> extends c (v, a) (V, A) [json_post]"
  using assms
  apply (cases c; cases "max_created_at v")
     apply (simp_all add: Let_def Post_get_created_at_def Post_from_json_def)
     apply (intro exI conjI, rule refl,
      simp add: extends_def Post_save_def Post_get_created_at_def Post_from_json_def)+
  done

lemma process_posts_extends: "\<exists>saved. extends c (v, a) (process_posts c posts (v, a)) saved"
proof (induction posts arbitrary: v a)
  case Nil
  show ?case using extends_refl[of c "(v, a)"] by auto
next
  case (Cons json_post rest)
  show ?case
  proof (cases "case c of None \<Rightarrow> True | Some d \<Rightarrow> \<not> dt_less (pj_created_at json_post) d")
    case False
    then obtain d where "c = Some d" "dt_less (pj_created_at json_post) d"
      by (auto split: option.splits)
    then show ?thesis using process_posts_break by blast
  next
    case True
    from process_posts_save[OF True, of rest v a] obtain V A where
      step: "process_posts c (json_post # rest) (v, a) = process_posts c rest (V, A)"
      and one: "extends c (v, a) (V, A) [json_post]" by blast
    obtain saved where "extends c (V, A) (process_posts c rest (V, A)) saved"
      using Cons.IH by blast
    with one have "extends c (v, a) (process_posts c rest (V, A)) ([json_post] @ saved)"
      by (rule extends_trans)
    then show ?thesis unfolding step by blast
  qed
qed

lemma archive_loop_extends:
  "archive_loop e c posts va = Some (Inr va') \<Longrightarrow> \<exists>saved. extends c va va' saved"
proof -
  have "\<forall>va'. r = Inr va' \<longrightarrow> (\<exists>saved. extends c va va' saved)"
    if "archive_loop e c posts va = Some r" for r
    using that
  proof (rule archive_loop.raw_induct[rotated, where P = "\<lambda>e c posts va r.
          \<forall>va'. r = Inr va' \<longrightarrow> (\<exists>saved. extends c va va' saved)"], goal_cases)
    case (1 loop e c posts va r)
    show ?case
    proof (intro allI impI)
      fix va' assume r: "r = Inr va'"
      show "\<exists>saved. extends c va va' saved"
      proof (cases "posts = []")
        case True
        then show ?thesis using 1(2) r extends_refl[of c "va"] by auto
      next
        case False
        obtain v a where pp: "process_posts c posts va = (v, a)"
          by (cases "process_posts c posts va")
        obtain s1 where s1: "extends c va (v, a) s1"
          using process_posts_extends[of c "fst va" "snd va" posts] pp by auto
        show ?thesis
        proof (cases "no_new_posts v \<or> (case last_id v of None \<Rightarrow> False | Some lid \<Rightarrow> lid \<le> 1)")
          case True
          then have "va' = (v, a)" using 1(2) r False pp by simp
          then show ?thesis using s1 by blast
        next
          case stop: False
          from 1(2) r False pp stop obtain lid' posts2 where
            rec: "loop e c posts2 (v\<lparr>last_id := Some lid'\<rparr>, a) = Some (Inr va')"
            by (auto split: option.splits sum.splits prod.splits)
          from 1(1)[OF rec] obtain s2 where "extends c (v\<lparr>last_id := Some lid'\<rparr>, a) va' s2"
            by blast
          with extends_last_id[OF s1] have "extends c va va' (s1 @ s2)"
            by (rule extends_trans)
          then show ?thesis by blast
        qed
      qed
    qed
  qed
  then show "archive_loop e c posts va = Some (Inr va') \<Longrightarrow> \<exists>saved. extends c va va' saved"
    by blast
qed

lemma render_one_keeps:
  assumes "render_one e json_path ident a = Some (Inr a')"
  shows "metadata_file a' = metadata_file a \<and> posts_dir a' = posts_dir a
         \<and> saved_posts a' = saved_posts a \<and> metadata_writes a' = metadata_writes a"
  using assms
  by (auto simp: render_one_def Topic_save_rendered_def saved_posts_def metadata_writes_def
      split: option.splits sum.splits prod.splits json.splits if_splits)

lemma render_all_keeps:
  "render_all e reqs a = Some (Inr a') \<Longrightarrow>
     metadata_file a' = metadata_file a \<and> posts_dir a' = posts_dir a
     \<and> saved_posts a' = saved_posts a \<and> metadata_writes a' = metadata_writes a"
proof (induction reqs arbitrary: a)
  case Nil
  then show ?case by simp
next
  case (Cons req reqs)
  obtain json_path ident where req: "req = (json_path, ident)" by (cases req)
  from Cons.prems obtain a1 where one: "render_one e json_path ident a = Some (Inr a1)"
    and rest: "render_all e reqs a1 = Some (Inr a')"
    by (auto simp: req split: option.splits sum.splits)
  show ?case using render_one_keeps[OF one] Cons.IH[OF rest] by simp
qed

lemma saved_posts_map: "events a = evs @ map SavedPost saved \<Longrightarrow>
    saved_posts a = concat (map (\<lambda>ev. case ev of SavedPost p \<Rightarrow> [p] | _ \<Rightarrow> []) evs) @ saved"
  by (simp add: saved_posts_def comp_def)

lemma metadata_writes_map: "events a = evs @ map SavedPost saved \<Longrightarrow>
    metadata_writes a = concat (map (\<lambda>ev. case ev of WroteMetadata d \<Rightarrow> [d] | _ \<Rightarrow> []) evs)"
  by (simp add: metadata_writes_def comp_def)

text \<open>
  A run of \<open>main\<close> that returns, started with an empty event log: the posts it saved are not
  older than the cutoff, and the metadata file is written once, with the creation time of
  the first post saved, or not at all when no post was saved.
\<close>

lemma main_summary:
  assumes "main e a0 = Some (Inr a')" and "events a0 = []"
  shows "\<exists>last_sync_date.
           (case metadata_file a0 of
              None \<Rightarrow> last_sync_date = None
            | Some d \<Rightarrow> last_sync_date \<noteq> None \<and> minus_one_day d = last_sync_date)
         \<and> (case last_sync_date of
              None \<Rightarrow> True
            | Some cutoff \<Rightarrow> list_all (\<lambda>p. \<not> dt_less (pj_created_at p) cutoff) (saved_posts a'))
         \<and> (case saved_posts a' of
              [] \<Rightarrow> metadata_file a' = metadata_file a0 \<and> metadata_writes a' = []
            | p # _ \<Rightarrow> metadata_file a' = Some (pj_created_at p)
                 \<and> metadata_writes a' = [pj_created_at p])"
proof -
  define a1 where "a1 = (if metadata_file a0 \<noteq> None then a0\<lparr>events := events a0 @ [ReadMetadata]\<rparr> else a0)"
  from assms(1) obtain c posts v a2 where
    c: "case metadata_file a0 of None \<Rightarrow> c = None
          | Some d \<Rightarrow> c \<noteq> None \<and> minus_one_day d = c"
    and loop: "archive_loop e c posts (init_vars, a1) = Some (Inr (v, a2))"
    and rend: "render_all e (map (main_topic_request \<circ> snd) (topics_to_get v))
        (case max_created_at v of None \<Rightarrow> a2 | Some m \<Rightarrow> write_metadata m a2) = Some (Inr a')"
    unfolding main_def a1_def Let_def
    by (auto split: option.splits sum.splits prod.splits)
  obtain saved where ext: "extends c (init_vars, a1) (v, a2) saved"
    using archive_loop_extends[OF loop] by blast
  have ev1: "events a1 = [] \<or> events a1 = [ReadMetadata]"
    using assms(2) by (simp add: a1_def)
  have m1: "metadata_file a1 = metadata_file a0" by (simp add: a1_def)
  have ev2: "events a2 = events a1 @ map SavedPost saved" using ext by (simp add: extends_def)
  have s2: "saved_posts a2 = saved" and w2: "metadata_writes a2 = []"
    using saved_posts_map[OF ev2] metadata_writes_map[OF ev2] ev1 by auto
  have m2: "metadata_file a2 = metadata_file a0" using ext m1 by (simp add: extends_def)
  have mx: "max_created_at v = (case saved of [] \<Rightarrow> None | p # _ \<Rightarrow> Some (pj_created_at p))"
    using ext by (simp add: extends_def init_vars_def)
  have old: "case c of None \<Rightarrow> True
      | Some cutoff \<Rightarrow> list_all (\<lambda>p. \<not> dt_less (pj_created_at p) cutoff) saved"
    using ext by (simp add: extends_def)
  define a3 where "a3 = (case max_created_at v of None \<Rightarrow> a2 | Some m \<Rightarrow> write_metadata m a2)"
  have s3: "saved_posts a3 = saved"
    using s2 by (simp add: a3_def saved_posts_def write_metadata_def split: option.splits)
  have k: "metadata_file a' = metadata_file a3" "saved_posts a' = saved_posts a3"
    "metadata_writes a' = metadata_writes a3"
    using render_all_keeps[OF rend[folded a3_def]] by simp_all
  have fin: "case saved of
              [] \<Rightarrow> metadata_file a3 = metadata_file a0 \<and> metadata_writes a3 = []
            | p # _ \<Rightarrow> metadata_file a3 = Some (pj_created_at p)
                 \<and> metadata_writes a3 = [pj_created_at p]"
    using mx m2 w2
    by (auto simp: a3_def write_metadata_def metadata_writes_def split: list.splits)
  have sa: "saved_posts a' = saved" using k(2) s3 by simp
  show ?thesis
    unfolding sa k(1) k(3) using c old fin by (intro exI[of _ c]) simp
qed

lemma dt_le_refl: "dt_le d d"
  by (simp add: dt_le_def)

lemma not_dt_less: "\<not> dt_less a b \<Longrightarrow> dt_le b a"
  by (simp add: dt_less_def dt_le_def)

lemma dt_le_trans: "dt_le a b \<Longrightarrow> dt_le b c \<Longrightarrow> dt_le a c"
  unfolding dt_le_def by (rule order_trans)

lemma minus_one_day_le: "minus_one_day d = Some c \<Longrightarrow> dt_le c d"
  by (auto simp: minus_one_day_def dt_le_def dt_key_def split: if_splits)

lemma archive_loop_one_page:
  assumes "posts \<noteq> []" and "process_posts c posts va = (v, a2)"
    and "no_new_posts v \<or> (case last_id v of None \<Rightarrow> False | Some lid \<Rightarrow> lid \<le> 1)"
  shows "archive_loop e c posts va = Some (Inr (v, a2))"
  using assms(1,3) by (subst archive_loop.simps) (simp add: assms(2))

text \<open>A run whose first page ends the listing.\<close>

lemma main_one_page:
  assumes "latest_posts e ''/posts.json'' = Some (Inr posts)" and "posts \<noteq> []"
    and "(case metadata_file a0 of
            None \<Rightarrow> Inr None
          | Some d \<Rightarrow> (case minus_one_day d of None \<Rightarrow> Inl OverflowError | Some c \<Rightarrow> Inr (Some c)))
         = Inr last_sync_date"
    and "process_posts last_sync_date posts
           (init_vars, if metadata_file a0 \<noteq> None then a0\<lparr>events := events a0 @ [ReadMetadata]\<rparr> else a0)
         = (v, a2)"
    and "no_new_posts v \<or> (case last_id v of None \<Rightarrow> False | Some lid \<Rightarrow> lid \<le> 1)"
  shows "main e a0 =
           render_all e (map (main_topic_request \<circ> snd) (topics_to_get v))
             (case max_created_at v of None \<Rightarrow> a2 | Some m \<Rightarrow> write_metadata m a2)"
proof -
  have "archive_loop e last_sync_date posts
      (init_vars, if metadata_file a0 \<noteq> None then a0\<lparr>events := events a0 @ [ReadMetadata]\<rparr> else a0)
      = Some (Inr (v, a2))"
    using assms(2,4,5) by (rule archive_loop_one_page)
  then show ?thesis
    unfolding main_def Let_def assms(3)
    by (simp only: assms(1) option.case sum.case prod.case)
qed

section \<open>Four runs of one page\<close>

lemma hello_request: "main_topic_request hello_topic = (''/t/7.json'', ''7'')"
  by (simp add: main_topic_request_def hello_topic_def str_int_eval)

lemma render_hello_skipped:
  assumes "http_get_json e ''/t/7.json'' = Some (Inr data)"
    and "http_get e (''/raw/'' @ ''7'') = Some (Inr [], sl)"
  shows "render_all e [main_topic_request hello_topic] a = Some (Inr (skipped ''7'' a))"
  unfolding hello_request using render_one_skip[OF assms] by (simp add: skipped_def)

lemma unordered_env_facts:
  "latest_posts unordered_env ''/posts.json'' = Some (Inr [early_first, late_second])"
  "http_get_json unordered_env ''/t/7.json'' = Some (Inr (JTopic example_topic_json))"
  "http_get unordered_env (''/raw/'' @ ''7'') = Some (Inr [], [])"
  by (simp_all add: unordered_env_def table_env_latest table_env_json table_env_get)

lemma regress_env_facts:
  "latest_posts regress_env ''/posts.json'' = Some (Inr [morning_post])"
  "http_get_json regress_env ''/t/7.json'' = Some (Inr (JTopic example_topic_json))"
  "http_get regress_env (''/raw/'' @ ''7'') = Some (Inr [], [])"
  by (simp_all add: regress_env_def table_env_latest table_env_json table_env_get)

lemma cutoff_example:
  "minus_one_day example_date = Some (example_date\<lparr>day := 9\<rparr>)"
  by (simp add: minus_one_day_def example_date_def)

lemma process_unordered:
  "c = None \<or> c = Some (example_date\<lparr>day := 9\<rparr>) \<Longrightarrow>
   process_posts c [early_first, late_second] (init_vars, a) =
     (\<lparr>topics_to_get = [(7, hello_topic)], max_created_at = Some example_date,
       last_created_at = Some next_day, last_id = Some 1, no_new_posts = False\<rparr>,
      Post_save (Post_from_json late_second) (Post_save (Post_from_json early_first) a))"
  by (auto simp: init_vars_def Let_def Post_from_json_def Post_get_created_at_def
      Post_get_topic_def early_first_def late_second_def hello_topic_def
      dt_less_def dt_key_def example_date_def next_day_def)

lemma process_morning:
  "c = None \<or> c = Some (example_date\<lparr>day := 9\<rparr>) \<Longrightarrow>
   process_posts c [morning_post] (init_vars, a) =
     (\<lparr>topics_to_get = [(7, hello_topic)], max_created_at = Some morning,
       last_created_at = Some morning, last_id = Some 1, no_new_posts = False\<rparr>,
      Post_save (Post_from_json morning_post) a)"
  by (auto simp: init_vars_def Let_def Post_from_json_def Post_get_created_at_def
      Post_get_topic_def morning_post_def hello_topic_def
      dt_less_def dt_key_def example_date_def morning_def)

lemma run_unordered_fresh:
  "main unordered_env empty_archive =
     Some (Inr (skipped ''7'' (write_metadata example_date
       (Post_save (Post_from_json late_second)
         (Post_save (Post_from_json early_first) empty_archive)))))"
proof -
  have m: "metadata_file empty_archive = None" by (simp add: empty_archive_def)
  show ?thesis
    by (subst main_one_page[OF unordered_env_facts(1) _ _ process_unordered[of None]])
       (simp_all add: m render_hello_skipped[OF unordered_env_facts(2,3)])
qed

lemma run_unordered_checkpointed:
  "main unordered_env checkpointed =
     Some (Inr (skipped ''7'' (write_metadata example_date
       (Post_save (Post_from_json late_second)
         (Post_save (Post_from_json early_first) (read_metadata checkpointed))))))"
proof -
  have m: "metadata_file checkpointed = Some example_date"
    by (simp add: checkpointed_def empty_archive_def)
  show ?thesis
    by (subst main_one_page[OF unordered_env_facts(1) _ _
          process_unordered[of "Some (example_date\<lparr>day := 9\<rparr>)"]])
       (simp_all add: m cutoff_example read_metadata_def
          render_hello_skipped[OF unordered_env_facts(2,3)])
qed

lemma run_regress_fresh:
  "main regress_env empty_archive =
     Some (Inr (skipped ''7'' (write_metadata morning
       (Post_save (Post_from_json morning_post) empty_archive))))"
proof -
  have m: "metadata_file empty_archive = None" by (simp add: empty_archive_def)
  show ?thesis
    by (subst main_one_page[OF regress_env_facts(1) _ _ process_morning[of None]])
       (simp_all add: m render_hello_skipped[OF regress_env_facts(2,3)])
qed

lemma run_regress_checkpointed:
  "main regress_env checkpointed =
     Some (Inr (skipped ''7'' (write_metadata morning
       (Post_save (Post_from_json morning_post) (read_metadata checkpointed)))))"
proof -
  have m: "metadata_file checkpointed = Some example_date"
    by (simp add: checkpointed_def empty_archive_def)
  show ?thesis
    by (subst main_one_page[OF regress_env_facts(1) _ _
          process_morning[of "Some (example_date\<lparr>day := 9\<rparr>)"]])
       (simp_all add: m cutoff_example read_metadata_def
          render_hello_skipped[OF regress_env_facts(2,3)])
qed

lemma summary_simps:
  "saved_posts (skipped i a) = saved_posts a"
  "saved_posts (write_metadata d a) = saved_posts a"
  "saved_posts (Post_save p a) = saved_posts a @ [post_raw p]"
  "saved_posts (read_metadata a) = saved_posts a"
  "saved_posts empty_archive = []"
  "metadata_writes (skipped i a) = metadata_writes a"
  "metadata_writes (write_metadata d a) = metadata_writes a @ [d]"
  "metadata_writes (Post_save p a) = metadata_writes a"
  "metadata_writes (read_metadata a) = metadata_writes a"
  "metadata_writes empty_archive = []"
  "metadata_file (skipped i a) = metadata_file a"
  "metadata_file (write_metadata d a) = Some d"
  "events empty_archive = []"
  by (simp_all add: saved_posts_def metadata_writes_def skipped_def write_metadata_def
      Post_save_def read_metadata_def empty_archive_def)

section \<open>The checkpoint after a run\<close>

text \<open>
  Claim C1, as the code has it. After a run of \<open>main\<close> that returns: when no post was saved,
  the metadata file is as it was; when posts were saved, the checkpoint is the creation time of
  the first post saved. It is the maximum of the creation times of the saved posts whenever no
  saved post is newer than the first one, as for a listing in descending order of recency.
\<close>

theorem checkpoint_is_first_saved_post:
  assumes "main e a0 = Some (Inr a')" and "events a0 = []"
  shows "(saved_posts a' = [] \<longrightarrow> metadata_file a' = metadata_file a0)
       \<and> (saved_posts a' \<noteq> [] \<longrightarrow>
            metadata_file a' = Some (pj_created_at (hd (saved_posts a'))))
       \<and> (saved_posts a' \<noteq> []
            \<and> list_all (\<lambda>p. dt_le (pj_created_at p) (pj_created_at (hd (saved_posts a'))))
                 (saved_posts a')
          \<longrightarrow> (\<exists>m. metadata_file a' = Some m \<and> m \<in> pj_created_at ` set (saved_posts a')
                 \<and> (\<forall>p\<in>set (saved_posts a'). dt_le (pj_created_at p) m)))"
proof (cases "saved_posts a'")
  case Nil
  then show ?thesis using main_summary[OF assms] by auto
next
  case (Cons p ps)
  then have m: "metadata_file a' = Some (pj_created_at p)"
    using main_summary[OF assms] by auto
  show ?thesis using m Cons by (auto simp: list_all_iff)
qed

theorem checkpoint_is_first_saved_post_witness:
  "main regress_env empty_archive =
     Some (Inr (skipped ''7'' (write_metadata morning
       (Post_save (Post_from_json morning_post) empty_archive))))
   \<and> events empty_archive = []
   \<and> saved_posts (skipped ''7'' (write_metadata morning
       (Post_save (Post_from_json morning_post) empty_archive))) = [morning_post]
   \<and> metadata_file (skipped ''7'' (write_metadata morning
       (Post_save (Post_from_json morning_post) empty_archive))) = Some (pj_created_at morning_post)"
proof -
  let ?a = "skipped ''7'' (write_metadata morning
       (Post_save (Post_from_json morning_post) empty_archive))"
  have s: "saved_posts ?a = [morning_post]"
    by (simp add: summary_simps Post_from_json_def)
  from checkpoint_is_first_saved_post[OF run_regress_fresh summary_simps(13)]
  have "saved_posts ?a \<noteq> [] \<longrightarrow> metadata_file ?a = Some (pj_created_at (hd (saved_posts ?a)))"
    by blast
  then have "metadata_file ?a = Some (pj_created_at morning_post)" by (simp add: s)
  then show ?thesis using run_regress_fresh s by (simp add: summary_simps)
qed

text \<open>
  The claim as the spec states it fails when the listing is not in descending order: post 2 of
  10 January comes first, post 1 of 11 January second; both are saved and the checkpoint is
  10 January, not the maximum.
\<close>

theorem checkpoint_is_first_saved_post_counterexample:
  "main unordered_env empty_archive =
     Some (Inr (skipped ''7'' (write_metadata example_date
       (Post_save (Post_from_json late_second)
         (Post_save (Post_from_json early_first) empty_archive)))))
   \<and> saved_posts (skipped ''7'' (write_metadata example_date
       (Post_save (Post_from_json late_second)
         (Post_save (Post_from_json early_first) empty_archive)))) = [early_first, late_second]
   \<and> metadata_file (skipped ''7'' (write_metadata example_date
       (Post_save (Post_from_json late_second)
         (Post_save (Post_from_json early_first) empty_archive)))) = Some (pj_created_at early_first)
   \<and> dt_less (pj_created_at early_first) (pj_created_at late_second)"
proof -
  have "dt_less (pj_created_at early_first) (pj_created_at late_second)"
    by (simp add: early_first_def late_second_def dt_less_def dt_key_def example_date_def
        next_day_def)
  moreover have "pj_created_at early_first = example_date" by (simp add: early_first_def)
  ultimately show ?thesis
    using run_unordered_fresh by (simp add: summary_simps Post_from_json_def)
qed

text \<open>
  Claim C4, as the code has it. A run of \<open>main\<close> that returns writes the metadata file at most
  once, and only if a post was saved. Started from the checkpoint \<open>C\<close>, it leaves a checkpoint
  that is not older than \<open>C\<close> minus one day, the cutoff of the run: it is \<open>C\<close> itself when no post
  was saved, and the creation time of the first post saved otherwise.
\<close>

theorem checkpoint_not_before_cutoff:
  assumes "main e a0 = Some (Inr a')" and "events a0 = []"
  shows "length (metadata_writes a') \<le> 1
       \<and> (metadata_writes a' \<noteq> [] \<longrightarrow> saved_posts a' \<noteq> [])
       \<and> (metadata_file a0 = Some C \<longrightarrow>
            (\<exists>cutoff M. minus_one_day C = Some cutoff \<and> metadata_file a' = Some M
               \<and> dt_le cutoff M \<and> (saved_posts a' = [] \<longrightarrow> M = C)))"
proof -
  from main_summary[OF assms] obtain last_sync_date where
    c: "case metadata_file a0 of None \<Rightarrow> last_sync_date = None
          | Some d \<Rightarrow> last_sync_date \<noteq> None \<and> minus_one_day d = last_sync_date"
    and old: "case last_sync_date of None \<Rightarrow> True
          | Some cutoff \<Rightarrow> list_all (\<lambda>p. \<not> dt_less (pj_created_at p) cutoff) (saved_posts a')"
    and fin: "case saved_posts a' of
              [] \<Rightarrow> metadata_file a' = metadata_file a0 \<and> metadata_writes a' = []
            | p # _ \<Rightarrow> metadata_file a' = Some (pj_created_at p)
                 \<and> metadata_writes a' = [pj_created_at p]"
    by blast
  have w: "length (metadata_writes a') \<le> 1 \<and> (metadata_writes a' \<noteq> [] \<longrightarrow> saved_posts a' \<noteq> [])"
    using fin by (cases "saved_posts a'") auto
  have mono: "\<exists>cutoff M. minus_one_day C = Some cutoff \<and> metadata_file a' = Some M
               \<and> dt_le cutoff M \<and> (saved_posts a' = [] \<longrightarrow> M = C)"
    if C: "metadata_file a0 = Some C"
  proof -
    from c C obtain cutoff where cut: "minus_one_day C = Some cutoff" "last_sync_date = Some cutoff"
      by auto
    show ?thesis
    proof (cases "saved_posts a'")
      case Nil
      then have "metadata_file a' = Some C" using fin C by simp
      then show ?thesis using cut(1) minus_one_day_le[OF cut(1)] Nil by simp
    next
      case (Cons p ps)
      then have "metadata_file a' = Some (pj_created_at p)" using fin by simp
      moreover have "dt_le cutoff (pj_created_at p)"
        using old cut(2) Cons by (simp add: not_dt_less)
      ultimately show ?thesis using cut(1) Cons by simp
    qed
  qed
  show ?thesis using w mono by blast
qed

theorem checkpoint_not_before_cutoff_witness:
  "main unordered_env checkpointed =
     Some (Inr (skipped ''7'' (write_metadata example_date
       (Post_save (Post_from_json late_second)
         (Post_save (Post_from_json early_first) (read_metadata checkpointed))))))
   \<and> events checkpointed = [] \<and> metadata_file checkpointed = Some example_date
   \<and> (\<exists>cutoff M. minus_one_day example_date = Some cutoff
        \<and> metadata_file (skipped ''7'' (write_metadata example_date
             (Post_save (Post_from_json late_second)
               (Post_save (Post_from_json early_first) (read_metadata checkpointed))))) = Some M
        \<and> dt_le cutoff M)"
proof -
  have e: "events checkpointed = []" and m: "metadata_file checkpointed = Some example_date"
    by (simp_all add: checkpointed_def empty_archive_def)
  from checkpoint_not_before_cutoff[OF run_unordered_checkpointed e, of example_date] m
  have "\<exists>cutoff M. minus_one_day example_date = Some cutoff
        \<and> metadata_file (skipped ''7'' (write_metadata example_date
             (Post_save (Post_from_json late_second)
               (Post_save (Post_from_json early_first) (read_metadata checkpointed))))) = Some M
        \<and> dt_le cutoff M"
    by blast
  then show ?thesis using run_unordered_checkpointed e m by simp
qed

text \<open>
  The claim as the spec states it fails: from the checkpoint 12:00 on 10 January, a listing
  whose newest post was created at 06:00 that day (inside the margin of one day) moves the
  checkpoint back to 06:00.
\<close>

theorem checkpoint_not_before_cutoff_counterexample:
  "metadata_file checkpointed = Some example_date
   \<and> main regress_env checkpointed =
       Some (Inr (skipped ''7'' (write_metadata morning
         (Post_save (Post_from_json morning_post) (read_metadata checkpointed)))))
   \<and> metadata_file (skipped ''7'' (write_metadata morning
         (Post_save (Post_from_json morning_post) (read_metadata checkpointed)))) = Some morning
   \<and> dt_less morning example_date"
proof -
  have "dt_less morning example_date"
    by (simp add: dt_less_def dt_key_def example_date_def morning_def)
  moreover have "metadata_file checkpointed = Some example_date"
    by (simp add: checkpointed_def empty_archive_def)
  ultimately show ?thesis using run_regress_checkpointed by (simp add: summary_simps)
qed

section \<open>The backfill reconciler\<close>

lemma backfill_one_empty:
  assumes "http_get_json e (topic_json_path ident slug) = Some (Inr data)"
    and "http_get e (''/raw/'' @ ident) = Some (Inr [], sl)"
  shows "backfill_one rt e ident slug a = Some (log_warning_str rt ident a)"
  using assms by (simp add: backfill_one_def)

lemma backfill_one_single_page:
  assumes "http_get_json e (topic_json_path ident slug) = Some (Inr (JTopic t))"
    and "http_get e (''/raw/'' @ ident) = Some (Inr (c # cs), sl)"
    and "http_get e (raw_page_path ident 2) = Some (Inr [], sl')"
  shows "backfill_one rt e ident slug a
           = Some (Inr (Topic_save_rendered (Topic_from_json t (c # cs)) a))"
  using assms by (simp add: backfill_one_def more_pages_stop)

lemma py_int_7_8: "py_int ''7'' = Some 7" "py_int ''8'' = Some 8"
  by (simp_all add: py_int_def is_space_def is_digit_def nat_of_digits_def digit_val_def)

lemma rendered_ids_empty: "rendered_ids empty_archive = []"
  by (simp add: rendered_ids_def empty_archive_def)

lemma unrenderable_env_facts:
  "http_get_json unrenderable_env (topic_json_path ''7'' ''hello'')
     = Some (Inr (JTopic example_topic_json))"
  "http_get_json unrenderable_env (topic_json_path ''8'' ''world'')
     = Some (Inr (JTopic example_topic8_json))"
  "http_get unrenderable_env (''/raw/'' @ ''7'') = Some (Inr [], [])"
  "http_get unrenderable_env (''/raw/'' @ ''8'') = Some (Inr ''only page'', [])"
  "http_get unrenderable_env (raw_page_path ''8'' 2) = Some (Inr [], [])"
  by (simp_all add: unrenderable_env_def table_env_json table_env_get raw_page_path_def
      topic_json_path_def str_int_eval)

lemma two_rows_difference:
  "filtered_tuples rt (unique_data rt two_rows) (rendered_ids empty_archive)
     = unique_data rt two_rows"
  "\<not> list_ex (\<lambda>t. py_int (fst t) = None) (unique_data rt two_rows)"
  "set_rank rt = (\<lambda>t. 0) \<Longrightarrow> unique_data rt two_rows = [(''7'', ''hello''), (''8'', ''world'')]"
  "set_rank rt = later_rank \<Longrightarrow> unique_data rt two_rows = [(''8'', ''world''), (''7'', ''hello'')]"
proof -
  have s: "set (unique_data rt two_rows) = {(''7'', ''hello''), (''8'', ''world'')}"
    by (auto simp: unique_data_def two_rows_def)
  have k: "\<And>t. t \<in> set (unique_data rt two_rows) \<Longrightarrow>
      (case py_int (fst t) of None \<Rightarrow> False | Some i \<Rightarrow> \<not> np_contains rt [] i)"
    unfolding s by (auto simp: py_int_7_8 np_contains_def int64_def)
  show "filtered_tuples rt (unique_data rt two_rows) (rendered_ids empty_archive)
     = unique_data rt two_rows"
    unfolding rendered_ids_empty filtered_tuples_def using k by (intro filter_True) blast
  show "\<not> list_ex (\<lambda>t. py_int (fst t) = None) (unique_data rt two_rows)"
    unfolding list_ex_iff s by (simp add: py_int_7_8)
  show "set_rank rt = (\<lambda>t. 0) \<Longrightarrow> unique_data rt two_rows = [(''7'', ''hello''), (''8'', ''world'')]"
    by (simp add: unique_data_def two_rows_def)
  show "set_rank rt = later_rank \<Longrightarrow> unique_data rt two_rows = [(''8'', ''world''), (''7'', ''hello'')]"
    by (simp add: unique_data_def two_rows_def later_rank_def)
qed

lemma renderFromJSONs_two_rows:
  "renderFromJSONs rt e two_rows empty_archive = backfill_all rt e (unique_data rt two_rows) empty_archive"
  by (simp add: renderFromJSONs_def Let_def two_rows_difference)

text \<open>
  In the loop of \<open>main\<close> the identifier is an integer: a topic whose first page is empty gets
  its warning, nothing is written for it, and the loop goes on with the remaining topics.
\<close>

lemma render_all_skips_first:
  assumes "http_get_json e json_path = Some (Inr data)"
    and "http_get e (''/raw/'' @ ident) = Some (Inr [], sl)"
  shows "render_all e ((json_path, ident) # rest) a
           = render_all e rest (a\<lparr>events := events a @ [Warning ident]\<rparr>)"
  using render_one_skip[OF assms] by simp

text \<open>
  Claim C9. In the loop of \<open>main\<close> a topic whose first page is empty is skipped with a warning
  and topic 8 is rendered after it. In the loop of \<open>renderFromJSONs\<close> the identifier is a
  string, and the same call of \<open>log.warning\<close> with \<open>%d\<close> fails: with \<open>rich\<close> installed the run
  ends with \<open>TypeError\<close> at topic 7, in whichever order the rows are taken; without it no
  warning is logged, a logging error is printed instead, and the run goes on.
\<close>

theorem reconciler_empty_first_page_raises:
  "http_get skip_env (''/raw/'' @ ''7'') = Some (Inr [], [])
   \<and> render_all skip_env [(''/t/7.json'', ''7''), (''/t/8.json'', ''8'')] empty_archive
       = Some (Inr (Topic_save_rendered (Topic_from_json example_topic8_json ''only page'')
                     (empty_archive\<lparr>events := [Warning ''7'']\<rparr>)))
   \<and> http_get unrenderable_env (''/raw/'' @ ''7'') = Some (Inr [], [])
   \<and> renderFromJSONs rich_runtime unrenderable_env two_rows empty_archive = Some (Inl TypeError)
   \<and> renderFromJSONs (rich_runtime\<lparr>set_rank := later_rank\<rparr>) unrenderable_env two_rows
        empty_archive = Some (Inl TypeError)
   \<and> renderFromJSONs plain_runtime unrenderable_env two_rows empty_archive
       = Some (Inr (Topic_save_rendered (Topic_from_json example_topic8_json ''only page'')
                     (empty_archive\<lparr>events := [LoggingError ''7'']\<rparr>)))"
proof -
  have j7: "http_get_json skip_env ''/t/7.json'' = Some (Inr (JTopic example_topic_json))"
    and j8: "http_get_json skip_env ''/t/8.json'' = Some (Inr (JTopic example_topic8_json))"
    by (simp_all add: skip_env_def table_env_json)
  have r7: "http_get skip_env (''/raw/'' @ ''7'') = Some (Inr [], [])"
    and r8: "http_get skip_env (''/raw/'' @ ''8'') = Some (Inr ''only page'', [])"
    and r82: "http_get skip_env (raw_page_path ''8'' 2) = Some (Inr [], [])"
    by (simp_all add: skip_env_def table_env_get raw_page_path_def str_int_eval)
  have m: "render_all skip_env [(''/t/7.json'', ''7''), (''/t/8.json'', ''8'')] empty_archive
       = Some (Inr (Topic_save_rendered (Topic_from_json example_topic8_json ''only page'')
                     (empty_archive\<lparr>events := [Warning ''7'']\<rparr>)))"
    unfolding render_all_skips_first[OF j7 r7]
    by (simp add: render_one_single_page[OF j8 r8 r82] empty_archive_def)
  note f = unrenderable_env_facts
  have one7: "backfill_one rt unrenderable_env ''7'' ''hello'' a = Some (log_warning_str rt ''7'' a)"
    for rt a using f(1,3) by (rule backfill_one_empty)
  have one8: "backfill_one rt unrenderable_env ''8'' ''world'' a
      = Some (Inr (Topic_save_rendered (Topic_from_json example_topic8_json ''only page'') a))"
    for rt a using backfill_one_single_page[OF f(2,4,5)] .
  have rich1: "renderFromJSONs rich_runtime unrenderable_env two_rows empty_archive
      = Some (Inl TypeError)"
    unfolding renderFromJSONs_two_rows
    by (subst two_rows_difference(3))
       (simp_all add: rich_runtime_def one7 log_warning_str_def)
  have rich2: "renderFromJSONs (rich_runtime\<lparr>set_rank := later_rank\<rparr>) unrenderable_env two_rows
        empty_archive = Some (Inl TypeError)"
    unfolding renderFromJSONs_two_rows
    by (subst two_rows_difference(4))
       (simp_all add: rich_runtime_def one7 one8 log_warning_str_def)
  have plain: "renderFromJSONs plain_runtime unrenderable_env two_rows empty_archive
       = Some (Inr (Topic_save_rendered (Topic_from_json example_topic8_json ''only page'')
                     (empty_archive\<lparr>events := [LoggingError ''7'']\<rparr>)))"
    unfolding renderFromJSONs_two_rows
    by (subst two_rows_difference(3))
       (simp_all add: plain_runtime_def one7 one8 log_warning_str_def empty_archive_def)
  show ?thesis using r7 m f(3) rich1 rich2 plain by simp
qed

lemma keys_update: "fst ` set (AList.update k v al) = insert k (fst ` set al)"
  by (induction al) auto

lemma rendered_ids_set:
  "set (rendered_ids a) = (\<Union>p \<in> fst ` set (topics_dir a). set (file_id (snd p)))"
  by (force simp: rendered_ids_def)

lemma np_contains_exact:
  "list_all int64 ids \<Longrightarrow> int64 i \<Longrightarrow> np_contains rt ids i = (i \<in> set ids)"
  by (simp add: np_contains_def)

lemma unique_data_set: "set (unique_data rt data) = set data"
  and unique_data_distinct: "distinct (unique_data rt data)"
  by (simp_all add: unique_data_def)

lemma filtered_tuples_exact:
  assumes "\<forall>t\<in>set data. \<exists>i. py_int (fst t) = Some i \<and> int64 i"
    and "list_all int64 ids"
  shows "set (filtered_tuples rt (unique_data rt data) ids)
           = {t \<in> set data. \<exists>i. py_int (fst t) = Some i \<and> i \<notin> set ids}"
proof -
  have "(case py_int (fst t) of None \<Rightarrow> False | Some i \<Rightarrow> \<not> np_contains rt ids i)
      = (\<exists>i. py_int (fst t) = Some i \<and> i \<notin> set ids)" if "t \<in> set data" for t
  proof -
    from assms(1) that obtain i where i: "py_int (fst t) = Some i" "int64 i" by blast
    show ?thesis using i np_contains_exact[OF assms(2) i(2), of rt] by simp
  qed
  then show ?thesis by (auto simp: filtered_tuples_def unique_data_set)
qed

lemma filtered_tuples_distinct: "distinct (filtered_tuples rt (unique_data rt data) ids)"
  by (simp add: filtered_tuples_def unique_data_distinct)

lemma backfill_one_rendered:
  assumes "rendered_topic e (ident, slug) = Some T"
  shows "backfill_one rt e ident slug a = Some (Inr (Topic_save_rendered T a))"
proof -
  from assms obtain tj body sl sl' where
    j: "http_get_json e (topic_json_path ident slug) = Some (Inr (JTopic tj))"
    and b: "http_get e (''/raw/'' @ ident) = Some (Inr body, sl)"
    and m: "http_get e (raw_page_path ident 2) = Some (Inr [], sl')"
    and ne: "body \<noteq> []" and T: "T = Topic_from_json tj body"
    by (auto simp: rendered_topic_def
        split: option.splits sum.splits json.splits prod.splits if_splits)
  from ne obtain c cs where body: "body = c # cs" by (cases body) auto
  show ?thesis using backfill_one_single_page[OF j b[unfolded body] m] by (simp add: T body)
qed

lemma backfill_all_rendered:
  "list_all2 (\<lambda>t T. rendered_topic e t = Some T) rows Ts \<Longrightarrow>
     backfill_all rt e rows a = Some (Inr (fold Topic_save_rendered Ts a))"
proof (induction rows Ts arbitrary: a rule: list_all2_induct)
  case Nil
  then show ?case by simp
next
  case (Cons t rows T Ts)
  obtain ident slug where t: "t = (ident, slug)" by (cases t)
  have "backfill_one rt e ident slug a = Some (Inr (Topic_save_rendered T a))"
    using Cons.hyps(1) unfolding t by (rule backfill_one_rendered)
  then show ?case using Cons.IH[of "Topic_save_rendered T a"] by (simp add: t)
qed

lemma fold_save_rendered:
  "topics_dir (fold Topic_save_rendered Ts a)
     = fold (\<lambda>T. AList.update (Topic_path T) (Topic_markdown T)) Ts (topics_dir a)"
  "events (fold Topic_save_rendered Ts a) = events a @ map (\<lambda>T. SavedTopic (Topic_path T)) Ts"
  "posts_dir (fold Topic_save_rendered Ts a) = posts_dir a"
  "metadata_file (fold Topic_save_rendered Ts a) = metadata_file a"
  by (induction Ts arbitrary: a) (simp_all add: Topic_save_rendered_def)

lemma fold_update_other:
  "p \<notin> Topic_path ` set Ts \<Longrightarrow>
     map_of (fold (\<lambda>T. AList.update (Topic_path T) (Topic_markdown T)) Ts al) p = map_of al p"
  by (induction Ts arbitrary: al) (simp_all add: update_conv')

lemma fold_update_keys:
  "fst ` set (fold (\<lambda>T. AList.update (Topic_path T) (Topic_markdown T)) Ts al)
     = fst ` set al \<union> Topic_path ` set Ts"
  by (induction Ts arbitrary: al) (auto simp: keys_update)

lemma list_all2_set1: "list_all2 P xs ys \<Longrightarrow> x \<in> set xs \<Longrightarrow> \<exists>y\<in>set ys. P x y"
  by (induction rule: list_all2_induct) auto

lemma list_all2_set2: "list_all2 P xs ys \<Longrightarrow> y \<in> set ys \<Longrightarrow> \<exists>x\<in>set xs. P x y"
  by (induction rule: list_all2_induct) auto

lemma int64_below: "int64 i \<Longrightarrow> i < 10 ^ 83"
proof -
  assume "int64 i"
  then have "i < 2 ^ 63" by (simp add: int64_def)
  also have "(2::int) ^ 63 < 10 ^ 83" by simp
  finally show ?thesis .
qed

text \<open>
  After a run that rendered every row of the difference, with names that lead back to the
  rows, the identifier of every row is among those read from the file names.
\<close>

lemma second_difference_empty:
  assumes ids: "\<forall>t\<in>set data. \<exists>i. py_int (fst t) = Some i \<and> int64 i"
    and files: "list_all int64 (rendered_ids a)"
    and names: "list_all2 leads_back (filtered_tuples rt (unique_data rt data) (rendered_ids a)) Ts"
  shows "filtered_tuples rt' (unique_data rt' data) (rendered_ids (fold Topic_save_rendered Ts a)) = []"
proof -
  let ?D = "filtered_tuples rt (unique_data rt data) (rendered_ids a)"
  let ?a1 = "fold Topic_save_rendered Ts a"
  have D: "set ?D = {t \<in> set data. \<exists>i. py_int (fst t) = Some i \<and> i \<notin> set (rendered_ids a)}"
    using ids files by (rule filtered_tuples_exact)
  have keys: "fst ` set (topics_dir ?a1) = fst ` set (topics_dir a) \<union> Topic_path ` set Ts"
    by (simp add: fold_save_rendered(1) fold_update_keys)
  have T_id: "file_id (Topic_filename T) = [topic_id T] \<and> int64 (topic_id T)" if "T \<in> set Ts" for T
  proof -
    from list_all2_set2[OF names that] obtain t where t: "t \<in> set ?D" "leads_back t T" by blast
    from t(1) have "t \<in> set data" unfolding D by simp
    with ids t(2) have i: "int64 (topic_id T)" by (auto simp: leads_back_def)
    have "file_id (Topic_filename T) = [topic_id T]"
      using t(2) int64_below[OF i] by (intro topic_file_id) (simp_all add: leads_back_def)
    then show ?thesis using i by simp
  qed
  have ids1: "set (rendered_ids ?a1) = set (rendered_ids a) \<union> topic_id ` set Ts"
    unfolding rendered_ids_set keys using T_id by (auto simp: Topic_path_def)
  have files1: "list_all int64 (rendered_ids ?a1)"
    unfolding list_all_iff ids1 using files T_id by (auto simp: list_all_iff)
  have "set (filtered_tuples rt' (unique_data rt' data) (rendered_ids ?a1))
      = {t \<in> set data. \<exists>i. py_int (fst t) = Some i \<and> i \<notin> set (rendered_ids ?a1)}"
    using ids files1 by (rule filtered_tuples_exact)
  also have "\<dots> = {}"
  proof -
    have False if t: "t \<in> set data" and i: "py_int (fst t) = Some i"
      and new: "i \<notin> set (rendered_ids ?a1)" for t i
    proof -
      from new have "i \<notin> set (rendered_ids a)" unfolding ids1 by simp
      with t i have "t \<in> set ?D" unfolding D by blast
      from list_all2_set1[OF names this] obtain T where "T \<in> set Ts" "leads_back t T" by blast
      then have "i \<in> topic_id ` set Ts" using i by (auto simp: leads_back_def)
      then show False using new unfolding ids1 by simp
    qed
    then show ?thesis by blast
  qed
  finally show ?thesis by simp
qed

lemma renderFromJSONs_rows:
  assumes "\<forall>t\<in>set data. \<exists>i. py_int (fst t) = Some i \<and> int64 i"
  shows "renderFromJSONs rt e data a
           = backfill_all rt e (filtered_tuples rt (unique_data rt data) (rendered_ids a)) a"
proof -
  have "\<not> list_ex (\<lambda>t. py_int (fst t) = None) (unique_data rt data)"
    unfolding list_ex_iff unique_data_set using assms by auto
  then show ?thesis by (simp add: renderFromJSONs_def Let_def)
qed

lemma save_rendered_posts:
  "Topic_save_rendered T (a\<lparr>posts_dir := ps\<rparr>) = (Topic_save_rendered T a)\<lparr>posts_dir := ps\<rparr>"
  by (simp add: Topic_save_rendered_def)

lemma fold_save_rendered_posts:
  "fold Topic_save_rendered Ts (a\<lparr>posts_dir := ps\<rparr>)
     = (fold Topic_save_rendered Ts a)\<lparr>posts_dir := ps\<rparr>"
  by (induction Ts arbitrary: a) (simp_all add: save_rendered_posts)

lemma rendered_ids_posts: "rendered_ids (a\<lparr>posts_dir := ps\<rparr>) = rendered_ids a"
  by (simp add: rendered_ids_def)

text \<open>
  Claim C6, as the code has it. \<open>renderFromJSONs\<close> works on the rows \<open>data\<close> of
  \<open>topics_array.npy\<close>, whatever post files the archive holds. With identifiers that fit 64
  bits, in the rows and in the names of the rendered files, the rows it works on are, without
  repetition, the rows whose identifier is not among those read from the file names. When
  each of them can be rendered, to the topics \<open>Ts\<close>, the run returns and has saved exactly
  these topics, in the order of the rows: the rendered files are the old ones updated with
  the text of each topic under its path, every other file keeps its content, the log gains
  one entry per topic saved, and the posts and the metadata file are as before, the latter
  neither read nor written. When moreover the names of the files lead back to the rows'
  identifiers, a second run on the archive the first one left, under any installation,
  returns that archive unchanged: it renders nothing.
\<close>

theorem reconciler_renders_difference:
  assumes "\<forall>t\<in>set data. \<exists>i. py_int (fst t) = Some i \<and> int64 i"
    and "list_all int64 (rendered_ids a)"
    and "list_all2 (\<lambda>t T. rendered_topic e t = Some T)
           (filtered_tuples rt (unique_data rt data) (rendered_ids a)) Ts"
  shows "distinct (filtered_tuples rt (unique_data rt data) (rendered_ids a))
       \<and> set (filtered_tuples rt (unique_data rt data) (rendered_ids a))
           = {t \<in> set data. \<exists>i. py_int (fst t) = Some i \<and> i \<notin> set (rendered_ids a)}
       \<and> renderFromJSONs rt e data a = Some (Inr (fold Topic_save_rendered Ts a))
       \<and> renderFromJSONs rt e data (a\<lparr>posts_dir := ps\<rparr>)
           = Some (Inr ((fold Topic_save_rendered Ts a)\<lparr>posts_dir := ps\<rparr>))
       \<and> topics_dir (fold Topic_save_rendered Ts a)
           = fold (\<lambda>T. AList.update (Topic_path T) (Topic_markdown T)) Ts (topics_dir a)
       \<and> (\<forall>p. p \<notin> Topic_path ` set Ts \<longrightarrow>
             map_of (topics_dir (fold Topic_save_rendered Ts a)) p = map_of (topics_dir a) p)
       \<and> events (fold Topic_save_rendered Ts a)
           = events a @ map (\<lambda>T. SavedTopic (Topic_path T)) Ts
       \<and> posts_dir (fold Topic_save_rendered Ts a) = posts_dir a
       \<and> metadata_file (fold Topic_save_rendered Ts a) = metadata_file a
       \<and> (list_all2 leads_back (filtered_tuples rt (unique_data rt data) (rendered_ids a)) Ts
            \<longrightarrow> (\<forall>rt'. renderFromJSONs rt' e data (fold Topic_save_rendered Ts a)
                         = Some (Inr (fold Topic_save_rendered Ts a))))"
proof -
  have run: "renderFromJSONs rt e data a' = Some (Inr (fold Topic_save_rendered Ts a'))"
    if "rendered_ids a' = rendered_ids a" for a'
    unfolding renderFromJSONs_rows[OF assms(1)] that
    using assms(3) by (rule backfill_all_rendered)
  have other: "\<forall>p. p \<notin> Topic_path ` set Ts \<longrightarrow>
      map_of (topics_dir (fold Topic_save_rendered Ts a)) p = map_of (topics_dir a) p"
    by (simp add: fold_save_rendered(1) fold_update_other)
  have again: "\<forall>rt'. renderFromJSONs rt' e data (fold Topic_save_rendered Ts a)
                         = Some (Inr (fold Topic_save_rendered Ts a))"
    if "list_all2 leads_back (filtered_tuples rt (unique_data rt data) (rendered_ids a)) Ts"
    unfolding renderFromJSONs_rows[OF assms(1)]
      second_difference_empty[OF assms(1,2) that] by simp
  have run2: "renderFromJSONs rt e data (a\<lparr>posts_dir := ps\<rparr>)
           = Some (Inr ((fold Topic_save_rendered Ts a)\<lparr>posts_dir := ps\<rparr>))"
    using run[OF rendered_ids_posts, of ps] unfolding fold_save_rendered_posts .
  show ?thesis
    using filtered_tuples_distinct[of rt data "rendered_ids a"]
      filtered_tuples_exact[OF assms(1,2), of rt] run[OF refl]
      run2 other fold_save_rendered(1-4)[of Ts a] again
    by blast
qed

lemma backfill_env_facts:
  "rendered_topic backfill_env (''7'', ''hello'')
     = Some (Topic_from_json example_topic_json ''first page'')"
  "rendered_topic backfill_env (''8'', ''world'')
     = Some (Topic_from_json example_topic8_json ''only page'')"
  by (simp_all add: rendered_topic_def backfill_env_def table_env_json table_env_get
      raw_page_path_def topic_json_path_def str_int_eval)

lemma backfill_rows_facts:
  "set backfill_rows = {(''7'', ''hello''), (''8'', ''world'')}"
  "unique_data plain_runtime backfill_rows = [(''8'', ''world''), (''7'', ''hello'')]"
  "filtered_tuples plain_runtime [(''8'', ''world''), (''7'', ''hello'')] []
     = [(''8'', ''world''), (''7'', ''hello'')]"
  by (auto simp: backfill_rows_def unique_data_def plain_runtime_def filtered_tuples_def
      py_int_7_8 np_contains_def int64_def)

lemma example_leads_back:
  "leads_back (''7'', ''hello'') (Topic_from_json example_topic_json ''first page'')"
  "leads_back (''8'', ''world'') (Topic_from_json example_topic8_json ''only page'')"
  by (simp_all add: leads_back_def py_int_7_8 Topic_from_json_def Topic_get_created_at_def
      example_topic_json_def example_topic8_json_def example_date_def valid_datetime_def
      days_in_month_def)

theorem reconciler_renders_difference_witness:
  "unique_data plain_runtime backfill_rows = [(''8'', ''world''), (''7'', ''hello'')]
   \<and> rendered_ids empty_archive = []
   \<and> rendered_topic backfill_env (''8'', ''world'')
       = Some (Topic_from_json example_topic8_json ''only page'')
   \<and> rendered_topic backfill_env (''7'', ''hello'')
       = Some (Topic_from_json example_topic_json ''first page'')
   \<and> renderFromJSONs plain_runtime backfill_env backfill_rows empty_archive
       = Some (Inr after_backfill)
   \<and> events after_backfill
       = [SavedTopic (Topic_path (Topic_from_json example_topic8_json ''only page'')),
          SavedTopic (Topic_path (Topic_from_json example_topic_json ''first page''))]
   \<and> metadata_file after_backfill = None
   \<and> renderFromJSONs (rich_runtime\<lparr>set_rank := later_rank\<rparr>) backfill_env backfill_rows
        after_backfill = Some (Inr after_backfill)"
proof -
  let ?Ts = "[Topic_from_json example_topic8_json ''only page'',
              Topic_from_json example_topic_json ''first page'']"
  have ids: "\<forall>t\<in>set backfill_rows. \<exists>i. py_int (fst t) = Some i \<and> int64 i"
    unfolding backfill_rows_facts(1) by (simp add: py_int_7_8 int64_def)
  have files: "list_all int64 (rendered_ids empty_archive)"
    by (simp add: rendered_ids_empty)
  have D: "filtered_tuples plain_runtime (unique_data plain_runtime backfill_rows)
      (rendered_ids empty_archive) = [(''8'', ''world''), (''7'', ''hello'')]"
    unfolding rendered_ids_empty backfill_rows_facts(2) by (rule backfill_rows_facts(3))
  have topics: "list_all2 (\<lambda>t T. rendered_topic backfill_env t = Some T)
      (filtered_tuples plain_runtime (unique_data plain_runtime backfill_rows)
        (rendered_ids empty_archive)) ?Ts"
    unfolding D by (simp add: backfill_env_facts)
  have names: "list_all2 leads_back
      (filtered_tuples plain_runtime (unique_data plain_runtime backfill_rows)
        (rendered_ids empty_archive)) ?Ts"
    unfolding D by (simp add: example_leads_back)
  have f: "fold Topic_save_rendered ?Ts empty_archive = after_backfill"
    by (simp add: after_backfill_def)
  note res = reconciler_renders_difference[OF ids files topics, unfolded f]
  have first: "renderFromJSONs plain_runtime backfill_env backfill_rows empty_archive
       = Some (Inr after_backfill)"
    using res by blast
  have ev: "events after_backfill
       = [SavedTopic (Topic_path (Topic_from_json example_topic8_json ''only page'')),
          SavedTopic (Topic_path (Topic_from_json example_topic_json ''first page''))]"
    using res by (simp add: empty_archive_def)
  have md: "metadata_file after_backfill = None"
    using res by (simp add: empty_archive_def)
  have "\<forall>rt'. renderFromJSONs rt' backfill_env backfill_rows after_backfill
      = Some (Inr after_backfill)"
    using res names by blast
  then have again: "renderFromJSONs (rich_runtime\<lparr>set_rank := later_rank\<rparr>) backfill_env
      backfill_rows after_backfill = Some (Inr after_backfill)"
    by blast
  show ?thesis
    using backfill_rows_facts(2) rendered_ids_empty backfill_env_facts first ev md again
    by simp
qed

lemma Post_filename_json: "endswith (Post_filename p) ''.json''"
proof -
  have "\<exists>xs. Post_filename p = xs @ ''.json''"
    by (auto simp: Post_filename_def Let_def simp flip: append_assoc)
  then obtain xs where "Post_filename p = xs @ ''.json''" by blast
  then show ?thesis by (simp only: endswith_append)
qed

lemma pattern_file_id: "file_id (Topic_filename pattern_slug_topic) = [9]"
proof -
  have "str_int 7 = ''7''" by (simp add: str_int_eval)
  then have z: "zfill 10 (str_int 7) = ''0000000007''"
    by (simp add: zfill_def eval_nat_numeral)
  have d: "date_str example_date = ''2024-01-10''"
    by (simp add: date_str_def pad0_def example_date_def digits.simps digit_char_simps)
  have n: "Topic_filename pattern_slug_topic = ''2024-01-10-a-id9.md-id0000000007.md''"
    by (simp add: Topic_filename_def pattern_slug_topic_def Topic_from_json_def
        Topic_get_created_at_def z d)
  have m: "re_search_id ''2024-01-10-a-id9.md-id0000000007.md'' = Some ''9''"
    by (simp add: match_here_def is_digit_def)
  have e: "endswith ''2024-01-10-a-id9.md-id0000000007.md'' ''.md''"
    by (simp add: endswith_def)
  have v: "nat_of_digits ''9'' = 9"
    by (simp add: nat_of_digits_def digit_val_def)
  have "file_id ''2024-01-10-a-id9.md-id0000000007.md'' = [9]"
    unfolding file_id_def m using e v by simp
  then show ?thesis using n by simp
qed

lemma pattern_env_facts:
  "rendered_topic pattern_env (''7'', ''a-id9.md'') = Some pattern_slug_topic"
  by (simp add: rendered_topic_def pattern_env_def table_env_json table_env_get
      raw_page_path_def topic_json_path_def str_int_eval)
     (simp add: pattern_slug_topic_def Topic_from_json_def)

lemma pattern_rows_facts:
  "\<forall>t\<in>set pattern_rows. \<exists>i. py_int (fst t) = Some i \<and> int64 i"
  "filtered_tuples rt (unique_data rt pattern_rows) [] = pattern_rows"
  "filtered_tuples rt (unique_data rt pattern_rows) [9] = pattern_rows"
  by (simp_all add: pattern_rows_def unique_data_def filtered_tuples_def py_int_7_8
      np_contains_def int64_def)

text \<open>
  The claim as the spec states it fails, twice. An archive holds a post of topic 7 and no
  rendered topic, so that topic 7 is in the difference the claim describes; with an array
  that has no row the run renders nothing. And the topic with the slug \<open>a-id9.md\<close> is
  rendered by a first run, is read as topic 9 from the name of its file, and is rendered
  again by a second run.
\<close>

theorem reconciler_renders_difference_counterexample:
  "collect_ids posted = [(''7'', ''hello'')]
   \<and> rendered_ids posted = []
   \<and> renderFromJSONs plain_runtime backfill_env [] posted = Some (Inr posted)
   \<and> renderFromJSONs plain_runtime pattern_env pattern_rows empty_archive
       = Some (Inr rendered_once)
   \<and> rendered_ids rendered_once = [9]
   \<and> renderFromJSONs plain_runtime pattern_env pattern_rows rendered_once
       = Some (Inr (Topic_save_rendered pattern_slug_topic rendered_once))
   \<and> events (Topic_save_rendered pattern_slug_topic rendered_once)
       = [SavedTopic (Topic_path pattern_slug_topic), SavedTopic (Topic_path pattern_slug_topic)]"
proof -
  have c: "collect_ids posted = [(''7'', ''hello'')]"
    by (simp add: collect_ids_def posted_def Post_save_def empty_archive_def Post_path_def
        Post_filename_json example_post_def Post_from_json_def example_post_json_def str_int_eval)
  have r0: "rendered_ids posted = []"
    by (simp add: rendered_ids_def posted_def Post_save_def empty_archive_def)
  have none: "renderFromJSONs plain_runtime backfill_env [] posted = Some (Inr posted)"
    by (simp add: renderFromJSONs_def unique_data_def filtered_tuples_def)
  have ts: "list_all2 (\<lambda>t T. rendered_topic pattern_env t = Some T) pattern_rows
      [pattern_slug_topic]"
    by (simp add: pattern_rows_def pattern_env_facts)
  have one: "renderFromJSONs plain_runtime pattern_env pattern_rows empty_archive
       = Some (Inr rendered_once)"
    unfolding renderFromJSONs_rows[OF pattern_rows_facts(1)] rendered_ids_empty
      pattern_rows_facts(2) backfill_all_rendered[OF ts]
    by (simp add: rendered_once_def)
  have r1: "rendered_ids rendered_once = [9]"
    by (simp add: rendered_ids_def rendered_once_def Topic_save_rendered_def empty_archive_def
        Topic_path_def pattern_file_id)
  have two: "renderFromJSONs plain_runtime pattern_env pattern_rows rendered_once
       = Some (Inr (Topic_save_rendered pattern_slug_topic rendered_once))"
    unfolding renderFromJSONs_rows[OF pattern_rows_facts(1)] r1
      pattern_rows_facts(3) backfill_all_rendered[OF ts]
    by simp
  have ev: "events (Topic_save_rendered pattern_slug_topic rendered_once)
       = [SavedTopic (Topic_path pattern_slug_topic), SavedTopic (Topic_path pattern_slug_topic)]"
    by (simp add: rendered_once_def Topic_save_rendered_def empty_archive_def)
  show ?thesis using c r0 none one r1 two ev by blast
qed

end
